theory Spec2Isabelle
  imports Complex_Main "HOL-Library.Code_Target_Numeral"
begin

section \<open>Strings and numbers of the host language\<close>

text \<open>
  The library is TypeScript. A string of the program is a sequence of UTF-16 code units;
  the texts of numbers (\<open>num.toString()\<close>) are ASCII and are modelled as HOL strings,
  the rendered numerals contain Han characters and are modelled as lists of code units.
\<close>

type_synonym ustring = "nat list"

definition ascii :: "string \<Rightarrow> ustring" where
  "ascii s = map of_char s"

text \<open>The Han characters of \<open>amount.ts\<close>, named by their reading, with their code points.\<close>

abbreviation fu :: nat where "fu \<equiv> 0x8D1F"
abbreviation ling :: nat where "ling \<equiv> 0x96F6"
abbreviation yi :: nat where "yi \<equiv> 0x58F9"
abbreviation er :: nat where "er \<equiv> 0x8D30"
abbreviation san :: nat where "san \<equiv> 0x53C1"
abbreviation si :: nat where "si \<equiv> 0x8086"
abbreviation wu :: nat where "wu \<equiv> 0x4F0D"
abbreviation liu :: nat where "liu \<equiv> 0x9646"
abbreviation qi :: nat where "qi \<equiv> 0x67D2"
abbreviation ba :: nat where "ba \<equiv> 0x634C"
abbreviation jiu :: nat where "jiu \<equiv> 0x7396"
abbreviation shi :: nat where "shi \<equiv> 0x62FE"
abbreviation bai :: nat where "bai \<equiv> 0x4F70"
abbreviation qian :: nat where "qian \<equiv> 0x4EDF"
abbreviation wan :: nat where "wan \<equiv> 0x4E07"
abbreviation yi4 :: nat where "yi4 \<equiv> 0x4EBF"
abbreviation yuan :: nat where "yuan \<equiv> 0x5143"
abbreviation jiao :: nat where "jiao \<equiv> 0x89D2"
abbreviation fen :: nat where "fen \<equiv> 0x5206"
abbreviation li :: nat where "li \<equiv> 0x5398"
abbreviation hao :: nat where "hao \<equiv> 0x6BEB"
abbreviation zheng :: nat where "zheng \<equiv> 0x6574"

text \<open>
  A \<open>number\<close> argument is \<open>NaN\<close>, an infinity, or a finite value given by its shortest
  decimal form: \<open>Dec neg s e\<close> is \<open>s * 10 ^ e\<close>, negated when \<open>neg\<close> holds
  (\<open>Dec True 0 e\<close> is the negative zero). This is the decimal that
  \<open>Number.prototype.toString\<close> prints for the double, and the double is the one
  nearest to it (\<open>value_of\<close> below).
\<close>

datatype number = NaN | Infinity bool | Dec bool nat int

fun is_zero :: "number \<Rightarrow> bool" where
  "is_zero (Dec neg s e) = (s = 0)"
| "is_zero _ = False"

fun less_zero :: "number \<Rightarrow> bool" where
  "less_zero (Dec neg s e) = (neg \<and> s \<noteq> 0)"
| "less_zero (Infinity neg) = neg"
| "less_zero NaN = False"

fun Math_abs :: "number \<Rightarrow> number" where
  "Math_abs (Dec neg s e) = Dec False s e"
| "Math_abs (Infinity neg) = Infinity False"
| "Math_abs NaN = NaN"

fun negate :: "number \<Rightarrow> number" where
  "negate (Dec neg s e) = Dec (\<not> neg) s e"
| "negate (Infinity neg) = Infinity (\<not> neg)"
| "negate NaN = NaN"

subsection \<open>\<open>Number.prototype.toString\<close>\<close>

text \<open>
  The decimal digits of a natural number, most significant first, and the text of one digit.
\<close>

fun digits_of :: "nat \<Rightarrow> nat list" where
  "digits_of n = (if n < 10 then [n] else digits_of (n div 10) @ [n mod 10])"

declare digits_of.simps [simp del]

definition digit_char :: "nat \<Rightarrow> char" where
  "digit_char d = ''0123456789'' ! d"

definition digit_string :: "nat list \<Rightarrow> string" where
  "digit_string ds = map digit_char ds"

text \<open>
  The significand without its trailing zeros, and the number of zeros removed: the
  language standard asks for the shortest digit string \<open>s\<close> with \<open>k\<close> digits and the
  exponent \<open>n\<close> such that the value is \<open>s * 10 ^ (n - k)\<close>.
\<close>

definition trailing_zeros :: "nat list \<Rightarrow> nat" where
  "trailing_zeros ds = length (takeWhile (\<lambda>d. d = 0) (rev ds))"

definition significand :: "nat \<Rightarrow> nat list" where
  "significand s = (let ds = digits_of s in take (length ds - trailing_zeros ds) ds)"

definition point_position :: "nat \<Rightarrow> int \<Rightarrow> int" where
  "point_position s e = int (length (digits_of s)) + e"

definition positive_toString :: "nat \<Rightarrow> int \<Rightarrow> string" where
  "positive_toString s e =
     (let ds = significand s; k = int (length ds); n = point_position s e in
      if k \<le> n \<and> n \<le> 21 then digit_string ds @ replicate (nat (n - k)) CHR ''0''
      else if 0 < n \<and> n \<le> 21 then
        digit_string (take (nat n) ds) @ ''.'' @ digit_string (drop (nat n) ds)
      else if - 6 < n \<and> n \<le> 0 then
        ''0.'' @ replicate (nat (- n)) CHR ''0'' @ digit_string ds
      else
        (let ex = n - 1;
             sgn = (if ex < 0 then ''-'' else ''+'');
             exs = digit_string (digits_of (nat \<bar>ex\<bar>))
         in if k = 1 then digit_string ds @ ''e'' @ sgn @ exs
            else digit_string (take 1 ds) @ ''.'' @ digit_string (drop 1 ds) @ ''e'' @ sgn @ exs))"

fun toString :: "number \<Rightarrow> string" where
  "toString NaN = ''NaN''"
| "toString (Infinity neg) = (if neg then ''-Infinity'' else ''Infinity'')"
| "toString (Dec neg s e) =
     (if s = 0 then ''0''
      else (if neg then ''-'' else '''') @ positive_toString s e)"

text \<open>
  \<open>str.split(sep)\<close> for a separator of one character: the pieces between the separators,
  at least one piece. \<open>parseInt(c, 10)\<close> for a string of one character: the digit, or
  \<open>NaN\<close> (here \<open>None\<close>). \<open>str.indexOf(c)\<close> is \<open>-1\<close> when the character is absent.
\<close>

fun split :: "char \<Rightarrow> string \<Rightarrow> string list" where
  "split sep [] = [[]]"
| "split sep (c # cs) =
     (if c = sep then [] # split sep cs
      else (case split sep cs of p # ps \<Rightarrow> (c # p) # ps | [] \<Rightarrow> [[c]]))"

definition parseInt :: "char \<Rightarrow> nat option" where
  "parseInt c = map_of [(CHR ''0'', 0), (CHR ''1'', 1), (CHR ''2'', 2), (CHR ''3'', 3),
     (CHR ''4'', 4), (CHR ''5'', 5), (CHR ''6'', 6), (CHR ''7'', 7), (CHR ''8'', 8),
     (CHR ''9'', 9)] c"

fun indexOf :: "'a list \<Rightarrow> 'a \<Rightarrow> int" where
  "indexOf [] c = - 1"
| "indexOf (x # xs) c =
     (if x = c then 0 else (let r = indexOf xs c in if r < 0 then - 1 else r + 1))"

section \<open>\<open>amount.ts\<close>: the currency numeral formatter\<close>

definition upperCaseNums :: "ustring list" where
  "upperCaseNums = [[ling], [yi], [er], [san], [si], [wu], [liu], [qi], [ba], [jiu]]"

definition units :: "ustring list" where
  "units = [[], [shi], [bai], [qian]]"

definition bigUnits :: "ustring list" where
  "bigUnits = [[], [wan], [yi4]]"

definition decimalUnits :: "ustring list" where
  "decimalUnits = [[jiao], [fen], [li], [hao]]"

text \<open>
  Reading a table at an index that is not one of its positions gives \<open>undefined\<close>, which
  string concatenation turns into the text \<open>undefined\<close>; this is what happens at the index
  \<open>NaN\<close>. \<open>bigUnits[groupIdx] || ''\<close> replaces the missing entry by the empty string.
\<close>

definition upperCaseNums_at :: "nat option \<Rightarrow> ustring" where
  "upperCaseNums_at digit =
     (case digit of
        None \<Rightarrow> ascii ''undefined''
      | Some d \<Rightarrow> if d < length upperCaseNums then upperCaseNums ! d else ascii ''undefined'')"

definition bigUnits_or_empty :: "nat \<Rightarrow> ustring" where
  "bigUnits_or_empty groupIdx = (if groupIdx < length bigUnits then bigUnits ! groupIdx else [])"

record group_state =
  groupResult :: ustring
  hasValue :: bool
  needZero :: bool

text \<open>The body of the inner loop of \<open>convertInteger\<close>, for one digit of the group.\<close>

definition digit_step :: "nat option \<Rightarrow> nat \<Rightarrow> group_state \<Rightarrow> group_state" where
  "digit_step digit posInGroup st =
     (if digit \<noteq> Some 0 then
        (let g = (if needZero st \<and> hasValue st then ling # groupResult st else groupResult st);
             g' = (if digit = Some 1 \<and> posInGroup = 1 then shi # g
                   else upperCaseNums_at digit @ units ! posInGroup @ g)
         in \<lparr>groupResult = g', hasValue = True, needZero = False\<rparr>)
      else if hasValue st then st\<lparr>needZero := True\<rparr>
      else st)"

function group_loop ::
  "nat option list \<Rightarrow> nat \<Rightarrow> nat \<Rightarrow> nat \<Rightarrow> group_state \<Rightarrow> group_state" where
  "group_loop digits start end i st =
     (if i < end then group_loop digits start end (i + 1) (digit_step (digits ! i) (i - start) st)
      else st)"
  by pat_completeness auto
termination
  by (relation "measure (\<lambda>(digits, start, end, i, st). end - i)") auto

declare group_loop.simps [simp del]

text \<open>The body of the outer loop: one group of four digits, the lowest group first.\<close>

definition group_step :: "nat option list \<Rightarrow> nat \<Rightarrow> ustring \<Rightarrow> ustring" where
  "group_step digits groupIdx result =
     (let len = length digits;
          start = groupIdx * 4;
          end = min (start + 4) len;
          st = group_loop digits start end start
                 \<lparr>groupResult = [], hasValue = False, needZero = False\<rparr>;
          g = (if hasValue st \<and> groupIdx > 0 then groupResult st @ bigUnits_or_empty groupIdx
               else groupResult st)
      in if hasValue st then
           g @ (if result \<noteq> [] \<and> needZero st \<and> indexOf g ling \<noteq> 0 then ling # result
                else result)
         else result)"

function groups_loop :: "nat option list \<Rightarrow> nat \<Rightarrow> nat \<Rightarrow> ustring \<Rightarrow> ustring" where
  "groups_loop digits groupCount groupIdx result =
     (if groupIdx < groupCount
      then groups_loop digits groupCount (groupIdx + 1) (group_step digits groupIdx result)
      else result)"
  by pat_completeness auto
termination
  by (relation "measure (\<lambda>(digits, groupCount, groupIdx, result). groupCount - groupIdx)") auto

declare groups_loop.simps [simp del]

definition convertInteger :: "string \<Rightarrow> ustring" where
  "convertInteger n =
     (if n = ''0'' \<or> n = [] then []
      else (let digits = rev (map parseInt n);
                len = length digits;
                groupCount = (len + 3) div 4
            in groups_loop digits groupCount 0 []))"

function decimal_loop :: "string \<Rightarrow> nat \<Rightarrow> nat \<Rightarrow> ustring \<Rightarrow> ustring" where
  "decimal_loop n maxDecimals i result =
     (if i < maxDecimals then
        (let digit = parseInt (n ! i)
         in decimal_loop n maxDecimals (i + 1)
              (if digit \<noteq> Some 0 then result @ upperCaseNums_at digit @ decimalUnits ! i
               else result))
      else result)"
  by pat_completeness auto
termination
  by (relation "measure (\<lambda>(n, maxDecimals, i, result). maxDecimals - i)") auto

declare decimal_loop.simps [simp del]

definition convertDecimal :: "string \<Rightarrow> ustring" where
  "convertDecimal n = (if n = [] then [] else decimal_loop n (min (length n) 4) 0 [])"

text \<open>
  \<open>priceUppercase(num)\<close> of \<open>src/amount.ts\<close>. The destructuring
  \<open>[integerPart, decimalPart = ''] = numStr.split('.')\<close> takes the first piece and the
  second one, or the empty string when there is no second piece.
\<close>

definition priceUppercase :: "number \<Rightarrow> ustring" where
  "priceUppercase num =
     (if is_zero num then [ling, yuan, zheng]
      else
        (let isNegative = less_zero num;
             numStr = toString (Math_abs num);
             parts = split CHR ''.'' numStr;
             integerPart = parts ! 0;
             decimalPart = (if 1 < length parts then parts ! 1 else []);
             integerStr = convertInteger integerPart;
             decimalStr = convertDecimal decimalPart;
             result = (if isNegative then [fu] else [])
         in if integerStr \<noteq> [] then
              result @ integerStr @ [yuan] @ (if decimalStr = [] then [zheng] else decimalStr)
            else result @ decimalStr))"


text \<open>
  The revision of \<open>amount.ts\<close> that also declares \<open>AmountOpt\<close> gives
  \<open>priceUppercase(val, format = zheng)\<close> a second, optional parameter, \<open>None\<close> here
  when it is not supplied. That revision binds the amount with \<open>const num = val\<close> and,
  after the test for zero and the test of the sign, executes \<open>num = Math.abs(num)\<close>:
  an assignment to a constant binding, which raises \<open>TypeError: Assignment to constant
  variable\<close>. The statements that follow it (they are those of \<open>priceUppercase(num)\<close>
  above, with \<open>format\<close> appended to an exact integer amount when it is not empty) are
  not reached.
\<close>

datatype type_error = AssignmentToConstant

definition priceUppercase_format :: "number \<Rightarrow> ustring option \<Rightarrow> type_error + ustring" where
  "priceUppercase_format val format_arg =
     (let format = (case format_arg of None \<Rightarrow> [zheng] | Some f \<Rightarrow> f);
          num = val
      in if is_zero num then Inr [ling, yuan, zheng]
         else (let isNegative = less_zero num
               in Inl AssignmentToConstant))"

text \<open>
  The exported \<open>getDecimalPlaces\<close> of \<open>amount.ts\<close>, with what it needs of the host
  language: \<open>indexOf\<close> and \<open>split\<close> for a separator of several characters,
  \<open>parseInt(str, 10)\<close> for any string (\<open>None\<close> is \<open>NaN\<close>), and the test
  \<open>Math.floor(num) === num\<close>.
\<close>

fun starts_with :: "string \<Rightarrow> string \<Rightarrow> bool" where
  "starts_with [] str = True"
| "starts_with (c # cs) [] = False"
| "starts_with (c # cs) (d # ds) = (c = d \<and> starts_with cs ds)"

fun indexOf_string :: "string \<Rightarrow> string \<Rightarrow> int" where
  "indexOf_string [] sub = (if sub = [] then 0 else - 1)"
| "indexOf_string (c # cs) sub =
     (if starts_with sub (c # cs) then 0
      else (let r = indexOf_string cs sub in if r < 0 then - 1 else r + 1))"

function split_string :: "string \<Rightarrow> string \<Rightarrow> string list" where
  "split_string sep str =
     (if sep = [] then map (\<lambda>c. [c]) str
      else if str = [] then [[]]
      else if starts_with sep str then [] # split_string sep (drop (length sep) str)
      else (case split_string sep (tl str) of
              p # ps \<Rightarrow> (hd str # p) # ps
            | [] \<Rightarrow> [[hd str]]))"
  by pat_completeness auto
termination
  by (relation "measure (\<lambda>(sep, str). length str)") auto

declare split_string.simps [simp del]

definition is_white_space :: "char \<Rightarrow> bool" where
  "is_white_space c \<longleftrightarrow> c \<in> set [CHR '' '', CHR 0x09, CHR 0x0A, CHR 0x0B, CHR 0x0C, CHR 0x0D]"

definition parseInt_string :: "string \<Rightarrow> int option" where
  "parseInt_string str =
     (let s1 = dropWhile is_white_space str;
          neg = (s1 \<noteq> [] \<and> hd s1 = CHR ''-'');
          s2 = (if s1 \<noteq> [] \<and> (hd s1 = CHR ''-'' \<or> hd s1 = CHR ''+'') then tl s1 else s1);
          ds = takeWhile (\<lambda>c. parseInt c \<noteq> None) s2
      in if ds = [] then None
         else Some ((if neg then - 1 else 1)
                    * int (foldl (\<lambda>acc c. 10 * acc + (case parseInt c of Some d \<Rightarrow> d | None \<Rightarrow> 0)) 0 ds)))"

fun is_integral :: "number \<Rightarrow> bool" where
  "is_integral NaN = False"
| "is_integral (Infinity neg) = True"
| "is_integral (Dec neg s e) = (0 \<le> e \<or> s mod 10 ^ nat (- e) = 0)"

definition amount_getDecimalPlaces :: "number \<Rightarrow> int option" where
  "amount_getDecimalPlaces num =
     (if is_integral num then Some 0
      else
        (let str = toString num
         in if indexOf str CHR ''.'' \<noteq> - 1 \<and> indexOf_string str ''e-'' = - 1
            then Some (int (length (split CHR ''.'' str ! 1)))
            else if indexOf_string str ''e-'' \<noteq> - 1
            then (let parts = split_string ''e-'' str;
                      mantissa = split CHR ''.'' (parts ! 0);
                      fraction = (if 1 < length mantissa then int (length (mantissa ! 1)) else 0)
                  in case parseInt_string (parts ! 1) of
                       None \<Rightarrow> None
                     | Some n \<Rightarrow> Some (n + fraction))
            else Some 0))"

definition alphabet :: "nat set" where
  "alphabet = {fu, ling, yi, er, san, si, wu, liu, qi, ba, jiu, shi, bai, qian, wan, yi4,
     yuan, jiao, fen, li, hao, zheng}"

text \<open>
  The characters of a digit string, and the digit values that \<open>parseInt\<close> reads from
  one: the texts of plain decimal numbers are made of these.
\<close>

definition digit_chars :: "char set" where
  "digit_chars = set ''0123456789''"

definition digit_values :: "nat option list \<Rightarrow> bool" where
  "digit_values digits \<longleftrightarrow> (\<forall>x \<in> set digits. \<exists>d<10. x = Some d)"

section \<open>\<open>math.ts\<close>: decimal-safe arithmetic\<close>

text \<open>
  A computed value is \<open>NaN\<close>, an infinity, a signed zero or a nonzero finite double, given
  by the rational number it is. The arithmetic is that of IEEE 754 binary64: the exact
  result is rounded to the nearest double, a tie going to the even significand.
\<close>

datatype jsval = VNaN | VInf bool | VZero bool | VFin rat

text \<open>
  \<open>binade q\<close> is the exponent \<open>e\<close> with \<open>2 ^ e \<le> q < 2 ^ (e + 1)\<close>, for a positive \<open>q\<close>.
  A double has 53 significant bits and is a multiple of \<open>2 ^ - 1074\<close>; a magnitude that
  rounds to \<open>2 ^ 1024\<close> or more is an infinity, one that rounds to nothing is a zero
  with the sign of the exact value.
\<close>

function bit_length :: "int \<Rightarrow> int" where
  "bit_length n = (if n \<le> 0 then 0 else 1 + bit_length (n div 2))"
  by pat_completeness auto
termination
  by (relation "measure nat") auto

declare bit_length.simps [simp del]

definition pow2 :: "int \<Rightarrow> rat" where
  "pow2 k = (if 0 \<le> k then of_int (2 ^ nat k) else 1 / of_int (2 ^ nat (- k)))"

text \<open>The numerator and the denominator of \<open>q / 2 ^ e\<close>, as integers.\<close>

definition scaled :: "rat \<Rightarrow> int \<Rightarrow> int \<times> int" where
  "scaled q e =
     (let (p, d) = quotient_of q
      in if 0 \<le> e then (p, d * 2 ^ nat e) else (p * 2 ^ nat (- e), d))"

definition binade :: "rat \<Rightarrow> int" where
  "binade q =
     (let (p, d) = quotient_of q;
          e0 = bit_length p - bit_length d;
          (p', d') = scaled q e0
      in if d' \<le> p' then e0 else e0 - 1)"

text \<open>The integer nearest to the fraction \<open>p / d\<close>, a tie going to the even one.\<close>

definition round_half_even :: "int \<times> int \<Rightarrow> int" where
  "round_half_even pd =
     (let (p, d) = pd; f = p div d; r = p mod d
      in if 2 * r < d then f else if d < 2 * r then f + 1 else if even f then f else f + 1)"

definition to_binary64 :: "rat \<Rightarrow> jsval" where
  "to_binary64 q =
     (if q = 0 then VZero False
      else (let a = \<bar>q\<bar>;
                e = max (binade a - 52) (- 1074);
                n = round_half_even (scaled a e);
                r = of_int n * pow2 e
            in if n = 0 then VZero (q < 0)
               else if 971 < e \<or> (e = 971 \<and> 2 ^ 53 \<le> n) then VInf (q < 0)
               else VFin (if q < 0 then - r else r)))"

text \<open>
  The double of a \<open>number\<close> argument: the one nearest to the decimal that prints it.
\<close>

fun value_of :: "number \<Rightarrow> jsval" where
  "value_of NaN = VNaN"
| "value_of (Infinity neg) = VInf neg"
| "value_of (Dec neg s e) =
     (if s = 0 then VZero neg
      else to_binary64 ((if neg then - 1 else 1) *
                        (if 0 \<le> e then of_nat s * 10 ^ nat e else of_nat s / 10 ^ nat (- e))))"

fun js_neg :: "jsval \<Rightarrow> jsval" where
  "js_neg VNaN = VNaN"
| "js_neg (VInf neg) = VInf (\<not> neg)"
| "js_neg (VZero neg) = VZero (\<not> neg)"
| "js_neg (VFin q) = VFin (- q)"

fun js_add :: "jsval \<Rightarrow> jsval \<Rightarrow> jsval" where
  "js_add VNaN y = VNaN"
| "js_add x VNaN = VNaN"
| "js_add (VInf a) (VInf b) = (if a = b then VInf a else VNaN)"
| "js_add (VInf a) y = VInf a"
| "js_add x (VInf b) = VInf b"
| "js_add (VZero a) (VZero b) = VZero (a \<and> b)"
| "js_add (VZero a) (VFin q) = VFin q"
| "js_add (VFin p) (VZero b) = VFin p"
| "js_add (VFin p) (VFin q) = to_binary64 (p + q)"

definition js_sub :: "jsval \<Rightarrow> jsval \<Rightarrow> jsval" where
  "js_sub x y = js_add x (js_neg y)"

fun js_mult :: "jsval \<Rightarrow> jsval \<Rightarrow> jsval" where
  "js_mult VNaN y = VNaN"
| "js_mult x VNaN = VNaN"
| "js_mult (VInf a) (VInf b) = VInf (a \<noteq> b)"
| "js_mult (VInf a) (VZero b) = VNaN"
| "js_mult (VZero a) (VInf b) = VNaN"
| "js_mult (VInf a) (VFin q) = VInf (a \<noteq> (q < 0))"
| "js_mult (VFin p) (VInf b) = VInf ((p < 0) \<noteq> b)"
| "js_mult (VZero a) (VZero b) = VZero (a \<noteq> b)"
| "js_mult (VZero a) (VFin q) = VZero (a \<noteq> (q < 0))"
| "js_mult (VFin p) (VZero b) = VZero ((p < 0) \<noteq> b)"
| "js_mult (VFin p) (VFin q) = to_binary64 (p * q)"

fun js_div :: "jsval \<Rightarrow> jsval \<Rightarrow> jsval" where
  "js_div VNaN y = VNaN"
| "js_div x VNaN = VNaN"
| "js_div (VInf a) (VInf b) = VNaN"
| "js_div (VInf a) (VZero b) = VInf (a \<noteq> b)"
| "js_div (VInf a) (VFin q) = VInf (a \<noteq> (q < 0))"
| "js_div (VZero a) (VInf b) = VZero (a \<noteq> b)"
| "js_div (VFin p) (VInf b) = VZero ((p < 0) \<noteq> b)"
| "js_div (VZero a) (VZero b) = VNaN"
| "js_div (VZero a) (VFin q) = VZero (a \<noteq> (q < 0))"
| "js_div (VFin p) (VZero b) = VInf ((p < 0) \<noteq> b)"
| "js_div (VFin p) (VFin q) = to_binary64 (p / q)"

text \<open>
  \<open>Math.round\<close>: the nearest integer, a tie going towards plus infinity; a value in
  \<open>[-0.5, 0)\<close> gives the negative zero.
\<close>

fun Math_round :: "jsval \<Rightarrow> jsval" where
  "Math_round (VFin q) =
     (let r = \<lfloor>q + 1 / 2\<rfloor> in if r = 0 then VZero (q < 0) else VFin (of_int r))"
| "Math_round x = x"

text \<open>
  A value is a tie of \<open>Math.round\<close> when it lies exactly halfway between two integers.
\<close>

fun is_tie :: "jsval \<Rightarrow> bool" where
  "is_tie (VFin q) = (of_int \<lfloor>q + 1 / 2\<rfloor> = q + 1 / 2)"
| "is_tie x = False"

text \<open>
  \<open>Math.pow(10, k)\<close> for a count \<open>k\<close>: the double nearest to the power. The powers
  up to \<open>10 ^ 22\<close> are doubles themselves, and no text of a double has more than 22
  digits after the point.
\<close>

definition Math_pow10 :: "nat \<Rightarrow> jsval" where
  "Math_pow10 k = to_binary64 (10 ^ k)"

text \<open>
  \<open>getDecimalPlaces\<close> of \<open>math.ts\<close> (not exported), the count that the four
  operations use.
\<close>

definition getDecimalPlaces :: "number \<Rightarrow> nat" where
  "getDecimalPlaces num =
     (let str = toString num
      in if indexOf str CHR ''.'' = - 1 then 0
         else length (split CHR ''.'' str ! 1))"

text \<open>
  The optional argument \<open>decimal\<close> is \<open>None\<close> when it is not supplied; it is a count of
  decimal places, an integer.
\<close>

definition addition :: "number \<Rightarrow> number \<Rightarrow> int option \<Rightarrow> jsval" where
  "addition num1 num2 decimal =
     (let places1 = getDecimalPlaces num1;
          places2 = getDecimalPlaces num2;
          maxPlaces = max places1 places2;
          multiplier = Math_pow10 maxPlaces;
          result = js_div (js_add (Math_round (js_mult (value_of num1) multiplier))
                                  (Math_round (js_mult (value_of num2) multiplier)))
                          multiplier
      in case decimal of
           None \<Rightarrow> result
         | Some d \<Rightarrow>
             if d > 0
             then js_div (Math_round (js_mult result (Math_pow10 (nat d)))) (Math_pow10 (nat d))
             else result)"

definition subtraction :: "number \<Rightarrow> number \<Rightarrow> int option \<Rightarrow> jsval" where
  "subtraction num1 num2 decimal =
     (let places1 = getDecimalPlaces num1;
          places2 = getDecimalPlaces num2;
          maxPlaces = max places1 places2;
          multiplier = Math_pow10 maxPlaces;
          result = js_div (js_sub (Math_round (js_mult (value_of num1) multiplier))
                                  (Math_round (js_mult (value_of num2) multiplier)))
                          multiplier
      in case decimal of
           None \<Rightarrow> result
         | Some d \<Rightarrow>
             if d > 0
             then js_div (Math_round (js_mult result (Math_pow10 (nat d)))) (Math_pow10 (nat d))
             else result)"

definition multiplication :: "number \<Rightarrow> number \<Rightarrow> int option \<Rightarrow> jsval" where
  "multiplication num1 num2 decimal =
     (let places1 = getDecimalPlaces num1;
          places2 = getDecimalPlaces num2;
          totalPlaces = places1 + places2;
          multiplier1 = Math_pow10 places1;
          multiplier2 = Math_pow10 places2;
          result = js_div (js_mult (Math_round (js_mult (value_of num1) multiplier1))
                                   (Math_round (js_mult (value_of num2) multiplier2)))
                          (Math_pow10 totalPlaces)
      in case decimal of
           None \<Rightarrow> result
         | Some d \<Rightarrow>
             if d > 0
             then js_div (Math_round (js_mult result (Math_pow10 (nat d)))) (Math_pow10 (nat d))
             else result)"

datatype error = DivisionByZero

definition divisionOperation :: "number \<Rightarrow> number \<Rightarrow> int option \<Rightarrow> error + jsval" where
  "divisionOperation num1 num2 decimal =
     (if is_zero num2 then Inl DivisionByZero
      else
        (let places1 = getDecimalPlaces num1;
             places2 = getDecimalPlaces num2;
             maxPlaces = max places1 places2;
             multiplier1 = Math_pow10 maxPlaces;
             multiplier2 = Math_pow10 maxPlaces;
             result = js_div (Math_round (js_mult (value_of num1) multiplier1))
                             (Math_round (js_mult (value_of num2) multiplier2))
         in case decimal of
              None \<Rightarrow> Inr result
            | Some d \<Rightarrow>
                if d > 0
                then Inr (js_div (Math_round (js_mult result (Math_pow10 (nat d))))
                                 (Math_pow10 (nat d)))
                else Inr result))"

section \<open>\<open>coordtransform.ts\<close>: the coordinate transforms\<close>

text \<open>
  Coordinates are real numbers here: the transforms are read as the formulas they compute,
  without the rounding of doubles. The constants are the decimal literals of the source.
\<close>

definition X_PI :: real where
  "X_PI = (3.14159265358979324 * 3000.0) / 180.0"

definition PI :: real where
  "PI = 3.1415926535897932384626"

definition A :: real where
  "A = 6378245.0"

definition EE :: real where
  "EE = 0.00669342162296594323"

definition out_of_china :: "real \<Rightarrow> real \<Rightarrow> bool" where
  "out_of_china lng lat = (\<not> (lng > 73.66 \<and> lng < 135.05 \<and> lat > 3.86 \<and> lat < 53.55))"

definition transformLng :: "real \<Rightarrow> real \<Rightarrow> real" where
  "transformLng lng lat =
     (let ret = 300.0 + lng + 2.0 * lat + 0.1 * lng * lng + 0.1 * lng * lat
                + 0.1 * sqrt \<bar>lng\<bar>;
          ret = ret + ((20.0 * sin (6.0 * lng * PI) + 20.0 * sin (2.0 * lng * PI)) * 2.0) / 3.0;
          ret = ret + ((20.0 * sin (lng * PI) + 40.0 * sin ((lng / 3.0) * PI)) * 2.0) / 3.0;
          ret = ret + ((150.0 * sin ((lng / 12.0) * PI) + 300.0 * sin ((lng / 30.0) * PI)) * 2.0)
                      / 3.0
      in ret)"

definition transformLat :: "real \<Rightarrow> real \<Rightarrow> real" where
  "transformLat lng lat =
     (let ret = - 100.0 + 2.0 * lng + 3.0 * lat + 0.2 * lat * lat + 0.1 * lng * lat
                + 0.2 * sqrt \<bar>lng\<bar>;
          ret = ret + ((20.0 * sin (6.0 * lng * PI) + 20.0 * sin (2.0 * lng * PI)) * 2.0) / 3.0;
          ret = ret + ((20.0 * sin (lat * PI) + 40.0 * sin ((lat / 3.0) * PI)) * 2.0) / 3.0;
          ret = ret + ((160.0 * sin ((lat / 12.0) * PI) + 320 * sin ((lat * PI) / 30.0)) * 2.0)
                      / 3.0
      in ret)"

definition wgs84togcj02 :: "real \<Rightarrow> real \<Rightarrow> real \<times> real" where
  "wgs84togcj02 lng lat =
     (if out_of_china lng lat then (lng, lat)
      else
        (let dlat = transformLat (lng - 105.0) (lat - 35.0);
             dlng = transformLng (lng - 105.0) (lat - 35.0);
             radlat = (lat / 180.0) * PI;
             magic = sin radlat;
             magic = 1 - EE * magic * magic;
             sqrtmagic = sqrt magic;
             dlat = (dlat * 180.0) / (((A * (1 - EE)) / (magic * sqrtmagic)) * PI);
             dlng = (dlng * 180.0) / ((A / sqrtmagic) * cos radlat * PI);
             mglat = lat + dlat;
             mglng = lng + dlng
         in (mglng, mglat)))"

definition gcj02towgs84 :: "real \<Rightarrow> real \<Rightarrow> real \<times> real" where
  "gcj02towgs84 lng lat =
     (if out_of_china lng lat then (lng, lat)
      else
        (let dlat = transformLat (lng - 105.0) (lat - 35.0);
             dlng = transformLng (lng - 105.0) (lat - 35.0);
             radlat = (lat / 180.0) * PI;
             magic = sin radlat;
             magic = 1 - EE * magic * magic;
             sqrtmagic = sqrt magic;
             dlat = (dlat * 180.0) / (((A * (1 - EE)) / (magic * sqrtmagic)) * PI);
             dlng = (dlng * 180.0) / ((A / sqrtmagic) * cos radlat * PI);
             mglat = lat + dlat;
             mglng = lng + dlng
         in (lng * 2 - mglng, lat * 2 - mglat)))"

text \<open>\<open>Math.atan2(y, x)\<close> on real numbers: the angle of the point \<open>(x, y)\<close>.\<close>

definition Math_atan2 :: "real \<Rightarrow> real \<Rightarrow> real" where
  "Math_atan2 y x =
     (if 0 < x then arctan (y / x)
      else if x < 0 then (if 0 \<le> y then arctan (y / x) + pi else arctan (y / x) - pi)
      else if 0 < y then pi / 2
      else if y < 0 then - (pi / 2)
      else 0)"

definition bd09togcj02 :: "real \<Rightarrow> real \<Rightarrow> real \<times> real" where
  "bd09togcj02 lng lat =
     (let x = lng - 0.0065;
          y = lat - 0.006;
          z = sqrt (x * x + y * y) - 0.00002 * sin (y * X_PI);
          theta = Math_atan2 y x - 0.000003 * cos (x * X_PI);
          gglng = z * cos theta;
          gglat = z * sin theta
      in (gglng, gglat))"

definition gcj02tobd09 :: "real \<Rightarrow> real \<Rightarrow> real \<times> real" where
  "gcj02tobd09 lng lat =
     (let z = sqrt (lng * lng + lat * lat) + 0.00002 * sin (lat * X_PI);
          theta = Math_atan2 lat lng + 0.000003 * cos (lng * X_PI);
          bdlng = z * cos theta + 0.0065;
          bdlat = z * sin theta + 0.006
      in (bdlng, bdlat))"


section \<open>The currency numeral formatter on concrete amounts\<close>

text \<open>
  C1. The claim: when, reading the integer part from the highest digit down, a nonzero
  digit follows one or more zero digits, inside a group of four digits or across the
  boundary of two groups, \<open>priceUppercase\<close> writes exactly one placeholder \<open>ling\<close> before
  that digit. The function does so inside a group (\<open>1001\<close> below has its placeholder), but
  not across groups: \<open>10000001\<close> (groups \<open>1000\<close> and \<open>0001\<close>) and \<open>10001\<close> are rendered
  without any placeholder, and \<open>101011234\<close> gets one between \<open>wan\<close> and \<open>yi qian\<close>, where
  the digit before is a one, and none after \<open>yi4\<close>, where a zero precedes. The outer loop
  runs from the lowest group up, and the flag \<open>needZero\<close> it tests belongs to the group
  being added on the left, not to the groups already rendered on its right.
\<close>

theorem priceUppercase_zero_across_groups:
  "priceUppercase (Dec False 10000001 0) = [yi, qian, wan, yi, yuan, zheng]
   \<and> priceUppercase (Dec False 10001 0) = [yi, wan, yi, yuan, zheng]
   \<and> priceUppercase (Dec False 101011234 0) =
       [yi, yi4, yi, bai, ling, yi, wan, ling, yi, qian, er, bai, san, shi, si, yuan, zheng]
   \<and> priceUppercase (Dec False 1001 0) = [yi, qian, ling, yi, yuan, zheng]"
  by code_simp

text \<open>
  C4. The claim: for an input that is not a number, the formatters return the empty string.
  \<open>priceUppercase\<close> has no such guard: \<open>NaN\<close> is neither zero nor negative, its text
  \<open>NaN\<close> has three characters that \<open>parseInt\<close> maps to \<open>NaN\<close>, and the table lookups
  at that index put the text \<open>undefined\<close> into the result three times.
\<close>

theorem priceUppercase_NaN:
  "priceUppercase NaN =
     ascii ''undefined'' @ [bai] @ ascii ''undefined'' @ [shi] @ ascii ''undefined''
     @ [yuan, zheng]"
  by code_simp

text \<open>
  C5. The claim: a tens digit one is written as the bare \<open>shi\<close> only when the integer part
  is a single group, and as \<open>yi shi\<close> in every group of a longer integer part. The test of
  \<open>convertInteger\<close> is \<open>digit === 1 && posInGroup === 1\<close>, with no condition on the group:
  \<open>110000\<close> is rendered with the bare \<open>shi\<close> in its upper group, and so is
  \<open>1110000\<close>, where the tens digit is not even the leading digit.
\<close>

theorem priceUppercase_bare_shi_in_upper_group:
  "priceUppercase (Dec False 110000 0) = [shi, yi, wan, yuan, zheng]
   \<and> priceUppercase (Dec False 1110000 0) = [yi, bai, shi, yi, wan, yuan, zheng]"
  by code_simp

section \<open>The alphabet of the rendered amounts\<close>

text \<open>
  The text of a finite nonzero number without an exponent marker consists of digits and at
  most one point, so both pieces that \<open>priceUppercase\<close> takes from it are digit
  strings.
\<close>



lemma digits_of_less_10: "d \<in> set (digits_of n) \<Longrightarrow> d < 10"
proof (induction n arbitrary: d rule: digits_of.induct)
  case (1 n)
  show ?case
  proof (cases "n < 10")
    case True
    with "1.prems" show ?thesis by (subst (asm) digits_of.simps) simp
  next
    case False
    from "1.prems" have "d \<in> set (digits_of (n div 10)) \<or> d = n mod 10"
      using False by (subst (asm) digits_of.simps) auto
    then show ?thesis using "1.IH" [OF False] by auto
  qed
qed

lemma significand_less_10: "d \<in> set (significand s) \<Longrightarrow> d < 10"
  unfolding significand_def Let_def by (auto dest: in_set_takeD digits_of_less_10)

lemma digit_char_in_digit_chars: "d < 10 \<Longrightarrow> digit_char d \<in> digit_chars"
proof -
  assume "d < 10"
  then have "d < length ''0123456789''" by simp
  then show ?thesis unfolding digit_char_def digit_chars_def by (rule nth_mem)
qed

lemma digit_string_chars:
  "\<forall>d \<in> set ds. d < 10 \<Longrightarrow> set (digit_string ds) \<subseteq> digit_chars"
  unfolding digit_string_def using digit_char_in_digit_chars by auto

lemma zero_in_digit_chars: "CHR ''0'' \<in> digit_chars"
  by (simp add: digit_chars_def)

lemma positive_toString_plain:
  assumes "CHR ''e'' \<notin> set (positive_toString s e)"
  shows "set (positive_toString s e) \<subseteq> insert CHR ''.'' digit_chars"
proof -
  define ds where "ds = significand s"
  define k where "k = int (length ds)"
  define n where "n = point_position s e"
  have sg: "set (digit_string xs) \<subseteq> digit_chars" if "set xs \<subseteq> set ds" for xs
    using that by (intro digit_string_chars) (auto simp: ds_def dest: significand_less_10)
  have a: "set (digit_string ds) \<subseteq> digit_chars" by (rule sg) simp
  have b: "set (digit_string (take j ds)) \<subseteq> digit_chars" for j
    by (rule sg) (rule set_take_subset)
  have c: "set (digit_string (drop j ds)) \<subseteq> digit_chars" for j
    by (rule sg) (rule set_drop_subset)
  have r: "set (replicate j CHR ''0'') \<subseteq> digit_chars" for j
    using zero_in_digit_chars by auto
  consider (int) "k \<le> n \<and> n \<le> 21"
    | (frac) "\<not> (k \<le> n \<and> n \<le> 21)" "0 < n \<and> n \<le> 21"
    | (small) "\<not> (k \<le> n \<and> n \<le> 21)" "\<not> (0 < n \<and> n \<le> 21)" "- 6 < n \<and> n \<le> 0"
    | (expo) "\<not> (k \<le> n \<and> n \<le> 21)" "\<not> (0 < n \<and> n \<le> 21)" "\<not> (- 6 < n \<and> n \<le> 0)"
    by blast
  then show ?thesis
  proof cases
    case int
    then have "positive_toString s e = digit_string ds @ replicate (nat (n - k)) CHR ''0''"
      by (simp add: positive_toString_def Let_def ds_def k_def n_def)
    then show ?thesis using a r by auto
  next
    case frac
    then have "positive_toString s e =
        digit_string (take (nat n) ds) @ ''.'' @ digit_string (drop (nat n) ds)"
      by (simp add: positive_toString_def Let_def ds_def k_def n_def)
    then show ?thesis using b c by auto
  next
    case small
    then have "positive_toString s e =
        ''0.'' @ replicate (nat (- n)) CHR ''0'' @ digit_string ds"
      by (simp add: positive_toString_def Let_def ds_def k_def n_def)
    then show ?thesis using a r zero_in_digit_chars by auto
  next
    case expo
    then have "CHR ''e'' \<in> set (positive_toString s e)"
      by (auto simp add: positive_toString_def Let_def ds_def k_def n_def)
    with assms show ?thesis by simp
  qed
qed


lemma split_nonempty: "split sep s \<noteq> []"
  by (induction s) (auto split: list.splits)

lemma split_pieces: "p \<in> set (split sep s) \<Longrightarrow> set p \<subseteq> set s - {sep}"
proof (induction s arbitrary: p)
  case Nil
  then show ?case by simp
next
  case (Cons c cs)
  show ?case
  proof (cases "c = sep")
    case True
    with Cons.prems have "p = [] \<or> p \<in> set (split sep cs)" by simp
    then show ?thesis using Cons.IH by auto
  next
    case False
    obtain q qs where q: "split sep cs = q # qs"
      using split_nonempty [of sep cs] by (cases "split sep cs") auto
    with False Cons.prems have "p = c # q \<or> p \<in> set qs" by simp
    moreover have "set q \<subseteq> set cs - {sep}" using Cons.IH [of q] q by simp
    moreover have "p \<in> set qs \<Longrightarrow> set p \<subseteq> set cs - {sep}" using Cons.IH [of p] q by simp
    ultimately show ?thesis using False by auto
  qed
qed

lemma parseInt_digit: "c \<in> digit_chars \<Longrightarrow> \<exists>d<10. parseInt c = Some d"
  by (auto simp: digit_chars_def parseInt_def)


lemma upperCaseNums_at_alphabet: "d < 10 \<Longrightarrow> set (upperCaseNums_at (Some d)) \<subseteq> alphabet"
proof -
  assume "d < 10"
  then have "d \<in> set [0..<10]" by simp
  moreover have "\<forall>k \<in> set [0..<10]. set (upperCaseNums_at (Some k)) \<subseteq> alphabet"
    by code_simp
  ultimately show ?thesis by blast
qed

lemma units_alphabet: "pos < 4 \<Longrightarrow> set (units ! pos) \<subseteq> alphabet"
proof -
  assume "pos < 4"
  then have "pos \<in> set [0..<4]" by simp
  moreover have "\<forall>k \<in> set [0..<4]. set (units ! k) \<subseteq> alphabet"
    by code_simp
  ultimately show ?thesis by blast
qed

lemma decimalUnits_alphabet: "i < 4 \<Longrightarrow> set (decimalUnits ! i) \<subseteq> alphabet"
proof -
  assume "i < 4"
  then have "i \<in> set [0..<4]" by simp
  moreover have "\<forall>k \<in> set [0..<4]. set (decimalUnits ! k) \<subseteq> alphabet"
    by code_simp
  ultimately show ?thesis by blast
qed

lemma bigUnits_or_empty_alphabet: "set (bigUnits_or_empty groupIdx) \<subseteq> alphabet"
proof (cases "groupIdx < 3")
  case True
  then have "groupIdx \<in> set [0..<3]" by simp
  moreover have "\<forall>k \<in> set [0..<3]. set (bigUnits_or_empty k) \<subseteq> alphabet"
    by code_simp
  ultimately show ?thesis by blast
next
  case False
  then show ?thesis by (simp add: bigUnits_or_empty_def bigUnits_def)
qed

lemma alphabet_members:
  "ling \<in> alphabet" "shi \<in> alphabet" "yuan \<in> alphabet" "zheng \<in> alphabet"
  "fu \<in> alphabet"
  by (simp_all add: alphabet_def)

lemma digit_step_alphabet:
  assumes "d < 10" "pos < 4" "set (groupResult st) \<subseteq> alphabet"
  shows "set (groupResult (digit_step (Some d) pos st)) \<subseteq> alphabet"
  using assms upperCaseNums_at_alphabet [of d] units_alphabet [of pos] alphabet_members
  unfolding digit_step_def Let_def by auto

lemma group_loop_alphabet:
  assumes "digit_values digits" "end \<le> length digits" "end \<le> start + 4" "start \<le> i"
    "set (groupResult st) \<subseteq> alphabet"
  shows "set (groupResult (group_loop digits start end i st)) \<subseteq> alphabet"
  using assms
proof (induction digits start "end" i st rule: group_loop.induct)
  case (1 digits start "end" i st)
  show ?case
  proof (cases "i < end")
    case True
    then have "i < length digits" using "1.prems" by simp
    then have "digits ! i \<in> set digits" by simp
    then obtain d where d: "d < 10" "digits ! i = Some d"
      using "1.prems"(1) unfolding digit_values_def by blast
    have "i - start < 4" using True "1.prems" by simp
    then have "set (groupResult (digit_step (digits ! i) (i - start) st)) \<subseteq> alphabet"
      using d "1.prems"(5) by (simp add: digit_step_alphabet)
    then have "set (groupResult (group_loop digits start end (i + 1)
                 (digit_step (digits ! i) (i - start) st))) \<subseteq> alphabet"
      using "1.IH" [OF True] "1.prems" by simp
    then show ?thesis using True by (subst group_loop.simps) simp
  next
    case False
    then show ?thesis using "1.prems" by (subst group_loop.simps) simp
  qed
qed

lemma group_step_alphabet:
  assumes "digit_values digits" "set result \<subseteq> alphabet"
  shows "set (group_step digits groupIdx result) \<subseteq> alphabet"
proof -
  define st where "st = group_loop digits (groupIdx * 4) (min (groupIdx * 4 + 4) (length digits))
      (groupIdx * 4) \<lparr>groupResult = [], hasValue = False, needZero = False\<rparr>"
  have "set (groupResult st) \<subseteq> alphabet"
    unfolding st_def using assms(1) by (intro group_loop_alphabet) simp_all
  then show ?thesis
    using assms(2) bigUnits_or_empty_alphabet [of groupIdx] alphabet_members
    unfolding group_step_def Let_def st_def [symmetric] by auto
qed

lemma groups_loop_alphabet:
  assumes "digit_values digits" "set result \<subseteq> alphabet"
  shows "set (groups_loop digits groupCount groupIdx result) \<subseteq> alphabet"
  using assms
proof (induction digits groupCount groupIdx result rule: groups_loop.induct)
  case (1 digits groupCount groupIdx result)
  show ?case
  proof (cases "groupIdx < groupCount")
    case True
    have "set (group_step digits groupIdx result) \<subseteq> alphabet"
      using "1.prems" by (rule group_step_alphabet)
    then have "set (groups_loop digits groupCount (groupIdx + 1)
                 (group_step digits groupIdx result)) \<subseteq> alphabet"
      using "1.IH" [OF True] "1.prems"(1) by simp
    then show ?thesis using True by (subst groups_loop.simps) simp
  next
    case False
    then show ?thesis using "1.prems" by (subst groups_loop.simps) simp
  qed
qed

lemma convertInteger_alphabet:
  assumes "set n \<subseteq> digit_chars"
  shows "set (convertInteger n) \<subseteq> alphabet"
proof -
  have "digit_values (rev (map parseInt n))"
    unfolding digit_values_def using assms parseInt_digit by auto
  then show ?thesis
    unfolding convertInteger_def Let_def by (auto dest: groups_loop_alphabet [THEN subsetD, rotated 2])
qed

lemma decimal_loop_alphabet:
  assumes "set n \<subseteq> digit_chars" "maxDecimals \<le> length n" "maxDecimals \<le> 4"
    "set result \<subseteq> alphabet"
  shows "set (decimal_loop n maxDecimals i result) \<subseteq> alphabet"
  using assms
proof (induction n maxDecimals i result rule: decimal_loop.induct)
  case (1 n maxDecimals i result)
  show ?case
  proof (cases "i < maxDecimals")
    case True
    then have "n ! i \<in> set n" using "1.prems" by simp
    then obtain d where d: "d < 10" "parseInt (n ! i) = Some d"
      using "1.prems"(1) parseInt_digit by blast
    have "i < 4" using True "1.prems" by simp
    then have step: "set (if parseInt (n ! i) \<noteq> Some 0
                     then result @ upperCaseNums_at (parseInt (n ! i)) @ decimalUnits ! i
                     else result) \<subseteq> alphabet"
      using d "1.prems"(4) upperCaseNums_at_alphabet [of d] decimalUnits_alphabet [of i] by auto
    have "set (decimal_loop n maxDecimals (i + 1)
                (if parseInt (n ! i) \<noteq> Some 0
                 then result @ upperCaseNums_at (parseInt (n ! i)) @ decimalUnits ! i
                 else result)) \<subseteq> alphabet"
      using "1.IH" [OF True refl "1.prems"(1,2,3) step] .
    then show ?thesis using True by (subst decimal_loop.simps) (simp add: Let_def)
  next
    case False
    then show ?thesis using "1.prems" by (subst decimal_loop.simps) simp
  qed
qed

lemma convertDecimal_alphabet:
  assumes "set n \<subseteq> digit_chars"
  shows "set (convertDecimal n) \<subseteq> alphabet"
  unfolding convertDecimal_def using assms by (auto dest: decimal_loop_alphabet [THEN subsetD, rotated 4])

text \<open>
  C10. For every finite nonzero amount whose text has no exponent marker, every character
  of the result of \<open>priceUppercase\<close> is one of the 22 characters of \<open>alphabet\<close>: the
  sign \<open>fu\<close>, the ten digits, the units \<open>shi bai qian wan yi4\<close>, \<open>yuan\<close>, the four
  fractional units and \<open>zheng\<close>.
\<close>


theorem priceUppercase_alphabet:
  assumes "s \<noteq> 0" and "CHR ''e'' \<notin> set (toString (Dec neg s e))"
  shows "set (priceUppercase (Dec neg s e)) \<subseteq> alphabet"
proof -
  define numStr where "numStr = toString (Math_abs (Dec neg s e))"
  define parts where "parts = split CHR ''.'' numStr"
  define integerPart where "integerPart = parts ! 0"
  define decimalPart where "decimalPart = (if 1 < length parts then parts ! 1 else [])"
  have numStr: "numStr = positive_toString s e"
    using assms(1) by (simp add: numStr_def)
  have "CHR ''e'' \<notin> set (positive_toString s e)"
    using assms by (auto split: if_splits)
  then have plain: "set numStr \<subseteq> insert CHR ''.'' digit_chars"
    unfolding numStr by (rule positive_toString_plain)
  have piece: "set p \<subseteq> digit_chars" if "p \<in> set parts" for p
    using split_pieces [of p "CHR ''.''" numStr] that plain unfolding parts_def by auto
  have "parts \<noteq> []" unfolding parts_def by (rule split_nonempty)
  then have "integerPart \<in> set parts" unfolding integerPart_def by simp
  then have int_digits: "set integerPart \<subseteq> digit_chars" by (rule piece)
  have dec_digits: "set decimalPart \<subseteq> digit_chars"
  proof (cases "1 < length parts")
    case True
    then have "parts ! 1 \<in> set parts" by (rule nth_mem)
    then show ?thesis using piece True unfolding decimalPart_def by simp
  next
    case False
    then show ?thesis unfolding decimalPart_def by simp
  qed
  have i: "set (convertInteger integerPart) \<subseteq> alphabet"
    using int_digits by (rule convertInteger_alphabet)
  have d: "set (convertDecimal decimalPart) \<subseteq> alphabet"
    using dec_digits by (rule convertDecimal_alphabet)
  have "priceUppercase (Dec neg s e) =
      (let integerStr = convertInteger integerPart;
           decimalStr = convertDecimal decimalPart;
           result = (if less_zero (Dec neg s e) then [fu] else [])
       in if integerStr \<noteq> [] then
            result @ integerStr @ [yuan] @ (if decimalStr = [] then [zheng] else decimalStr)
          else result @ decimalStr)"
    using assms(1)
    by (simp add: priceUppercase_def Let_def numStr_def parts_def integerPart_def decimalPart_def)
  then show ?thesis
    using i d alphabet_members by (auto simp: Let_def)
qed

theorem priceUppercase_alphabet_witness:
  "(1234567123::nat) \<noteq> 0
   \<and> CHR ''e'' \<notin> set (toString (Dec True 1234567123 (- 3)))
   \<and> set (priceUppercase (Dec True 1234567123 (- 3))) \<subseteq> alphabet"
proof -
  have nz: "(1234567123::nat) \<noteq> 0" by simp
  have plain: "CHR ''e'' \<notin> set (toString (Dec True 1234567123 (- 3)))" by code_simp
  from priceUppercase_alphabet [OF nz plain] nz plain show ?thesis by blast
qed

section \<open>The suffix of exact integer amounts\<close>

text \<open>
  A digit other than zero gives its group a value and a text, and the text of a group
  with a value is never lost: the integer text of a nonzero whole amount is not empty.
\<close>

lemma upperCaseNums_at_nonempty: "upperCaseNums_at digit \<noteq> []"
proof (cases digit)
  case None
  then show ?thesis by (simp add: upperCaseNums_at_def ascii_def)
next
  case (Some d)
  show ?thesis
  proof (cases "d < 10")
    case True
    then have "d \<in> set [0..<10]" by simp
    moreover have "\<forall>k \<in> set [0..<10]. upperCaseNums_at (Some k) \<noteq> []" by code_simp
    ultimately show ?thesis using Some by blast
  next
    case False
    then show ?thesis using Some by (simp add: upperCaseNums_at_def upperCaseNums_def ascii_def)
  qed
qed

lemma digit_step_value:
  assumes "digit \<noteq> Some 0 \<or> (hasValue st \<and> groupResult st \<noteq> [])"
  shows "hasValue (digit_step digit pos st) \<and> groupResult (digit_step digit pos st) \<noteq> []"
  using assms upperCaseNums_at_nonempty [of digit]
  unfolding digit_step_def Let_def by auto

lemma group_loop_value:
  assumes "(\<exists>j. i \<le> j \<and> j < end \<and> digits ! j \<noteq> Some 0) \<or> (hasValue st \<and> groupResult st \<noteq> [])"
  shows "hasValue (group_loop digits start end i st)
         \<and> groupResult (group_loop digits start end i st) \<noteq> []"
  using assms
proof (induction digits start "end" i st rule: group_loop.induct)
  case (1 digits start "end" i st)
  show ?case
  proof (cases "i < end")
    case True
    have "(\<exists>j. i + 1 \<le> j \<and> j < end \<and> digits ! j \<noteq> Some 0)
          \<or> (hasValue (digit_step (digits ! i) (i - start) st)
              \<and> groupResult (digit_step (digits ! i) (i - start) st) \<noteq> [])"
    proof (cases "digits ! i \<noteq> Some 0 \<or> (hasValue st \<and> groupResult st \<noteq> [])")
      case True
      then show ?thesis using digit_step_value by blast
    next
      case False
      then obtain j where j: "i \<le> j" "j < end" "digits ! j \<noteq> Some 0"
        using "1.prems" by blast
      then have "j \<noteq> i" using False by auto
      then show ?thesis using j by (intro disjI1 exI [of _ j]) simp
    qed
    then show ?thesis
      using "1.IH" [OF True] True by (subst (1 2) group_loop.simps) simp
  next
    case False
    then show ?thesis using "1.prems" by (subst (1 2) group_loop.simps) auto
  qed
qed

lemma digit_step_consistent:
  assumes "hasValue st \<longrightarrow> groupResult st \<noteq> []"
  shows "hasValue (digit_step digit pos st) \<longrightarrow> groupResult (digit_step digit pos st) \<noteq> []"
  using assms upperCaseNums_at_nonempty [of digit]
  unfolding digit_step_def Let_def by auto

lemma group_loop_consistent:
  assumes "hasValue st \<longrightarrow> groupResult st \<noteq> []"
  shows "hasValue (group_loop digits start end i st)
         \<longrightarrow> groupResult (group_loop digits start end i st) \<noteq> []"
  using assms
proof (induction digits start "end" i st rule: group_loop.induct)
  case (1 digits start "end" i st)
  show ?case
  proof (cases "i < end")
    case True
    then show ?thesis
      using "1.IH" [OF True digit_step_consistent [OF "1.prems"]]
      by (subst (1 2) group_loop.simps) simp
  next
    case False
    then show ?thesis using "1.prems" by (subst (1 2) group_loop.simps) simp
  qed
qed

lemma group_step_nonempty:
  assumes "result \<noteq> [] \<or> (\<exists>j. groupIdx * 4 \<le> j \<and> j < min (groupIdx * 4 + 4) (length digits)
             \<and> digits ! j \<noteq> Some 0)"
  shows "group_step digits groupIdx result \<noteq> []"
proof -
  define st where "st = group_loop digits (groupIdx * 4) (min (groupIdx * 4 + 4) (length digits))
      (groupIdx * 4) \<lparr>groupResult = [], hasValue = False, needZero = False\<rparr>"
  have cons: "hasValue st \<longrightarrow> groupResult st \<noteq> []"
    unfolding st_def by (rule group_loop_consistent) simp
  show ?thesis
  proof (cases "hasValue st")
    case True
    then show ?thesis
      using cons unfolding group_step_def Let_def st_def [symmetric]
      by (cases "result = []") auto
  next
    case False
    have "\<not> (\<exists>j. groupIdx * 4 \<le> j \<and> j < min (groupIdx * 4 + 4) (length digits)
             \<and> digits ! j \<noteq> Some 0)"
      using False group_loop_value [of "groupIdx * 4" "min (groupIdx * 4 + 4) (length digits)" digits
          "\<lparr>groupResult = [], hasValue = False, needZero = False\<rparr>" "groupIdx * 4"]
      unfolding st_def by blast
    then have "result \<noteq> []" using assms by blast
    then show ?thesis
      using False unfolding group_step_def Let_def st_def [symmetric] by simp
  qed
qed

lemma groups_loop_nonempty:
  assumes "result \<noteq> [] \<or> (\<exists>j. groupIdx * 4 \<le> j \<and> j < length digits \<and> j < groupCount * 4
             \<and> digits ! j \<noteq> Some 0)"
  shows "groups_loop digits groupCount groupIdx result \<noteq> []"
  using assms
proof (induction digits groupCount groupIdx result rule: groups_loop.induct)
  case (1 digits groupCount groupIdx result)
  show ?case
  proof (cases "groupIdx < groupCount")
    case True
    have "group_step digits groupIdx result \<noteq> []
          \<or> (\<exists>j. (groupIdx + 1) * 4 \<le> j \<and> j < length digits \<and> j < groupCount * 4
                \<and> digits ! j \<noteq> Some 0)"
    proof (cases "result \<noteq> []")
      case True
      then show ?thesis using group_step_nonempty by blast
    next
      case False
      then obtain j where j: "groupIdx * 4 \<le> j" "j < length digits" "j < groupCount * 4"
          "digits ! j \<noteq> Some 0"
        using "1.prems" by blast
      show ?thesis
      proof (cases "j < groupIdx * 4 + 4")
        case True
        then have "\<exists>j. groupIdx * 4 \<le> j \<and> j < min (groupIdx * 4 + 4) (length digits)
             \<and> digits ! j \<noteq> Some 0"
          using j by (intro exI [of _ j]) simp
        then show ?thesis using group_step_nonempty by blast
      next
        case False
        then show ?thesis using j by (intro disjI2 exI [of _ j]) simp
      qed
    qed
    then show ?thesis
      using "1.IH" [OF True] True by (subst groups_loop.simps) simp
  next
    case False
    then have "result \<noteq> []" using "1.prems" by auto
    then show ?thesis using False by (subst groups_loop.simps) simp
  qed
qed

lemma convertInteger_nonempty:
  assumes "c \<in> set n" "parseInt c \<noteq> Some 0"
  shows "convertInteger n \<noteq> []"
proof -
  define digits where "digits = rev (map parseInt n)"
  have "parseInt c \<in> set digits" using assms(1) by (simp add: digits_def)
  then obtain j where j: "j < length digits" "digits ! j = parseInt c"
    by (auto simp: in_set_conv_nth)
  have "j < (length digits + 3) div 4 * 4" using j(1) by presburger
  then have "\<exists>j. 0 * 4 \<le> j \<and> j < length digits \<and> j < (length digits + 3) div 4 * 4
      \<and> digits ! j \<noteq> Some 0"
    using j assms(2) by (intro exI [of _ j]) simp
  then have "groups_loop digits ((length digits + 3) div 4) 0 [] \<noteq> []"
    by (intro groups_loop_nonempty) blast
  moreover have "n \<noteq> ''0''" "n \<noteq> []" using assms by (auto simp: parseInt_def)
  ultimately show ?thesis by (simp add: convertInteger_def Let_def digits_def)
qed

lemma digits_of_nonzero: "s \<noteq> 0 \<Longrightarrow> \<exists>d \<in> set (digits_of s). d \<noteq> 0"
proof (induction s rule: digits_of.induct)
  case (1 n)
  show ?case
  proof (cases "n < 10")
    case True
    then show ?thesis using "1.prems" by (subst digits_of.simps) simp
  next
    case False
    then have "n div 10 \<noteq> 0" by simp
    then have "\<exists>d \<in> set (digits_of (n div 10)). d \<noteq> 0" using "1.IH" [OF False] by simp
    then show ?thesis using False by (subst digits_of.simps) auto
  qed
qed

lemma significand_keeps_nonzero:
  assumes "d \<in> set (digits_of s)" "d \<noteq> 0"
  shows "d \<in> set (significand s)"
proof -
  define ds where "ds = digits_of s"
  define P where "P = (\<lambda>d::nat. d = 0)"
  have "rev ds = takeWhile P (rev ds) @ dropWhile P (rev ds)" by simp
  then have "ds = rev (dropWhile P (rev ds)) @ rev (takeWhile P (rev ds))"
    by (metis rev_append rev_rev_ident)
  moreover have "length (rev (dropWhile P (rev ds))) = length ds - length (takeWhile P (rev ds))"
    by (metis length_rev length_append takeWhile_dropWhile_id add_diff_cancel_left')
  ultimately have "take (length ds - length (takeWhile P (rev ds))) ds = rev (dropWhile P (rev ds))"
    by (metis append_eq_conv_conj)
  moreover have "d \<in> set (dropWhile P (rev ds))"
  proof -
    have "d \<in> set (takeWhile P (rev ds)) \<union> set (dropWhile P (rev ds))"
      using assms(1) by (metis ds_def set_append set_rev takeWhile_dropWhile_id)
    moreover have "d \<notin> set (takeWhile P (rev ds))"
      using assms(2) by (auto simp: P_def dest: set_takeWhileD)
    ultimately show ?thesis by blast
  qed
  ultimately show ?thesis
    by (simp add: significand_def trailing_zeros_def Let_def ds_def P_def)
qed

lemma parseInt_digit_char: "d < 10 \<Longrightarrow> parseInt (digit_char d) = Some d"
proof -
  assume "d < 10"
  then have "d \<in> set [0..<10]" by simp
  moreover have "\<forall>k \<in> set [0..<10]. parseInt (digit_char k) = Some k" by code_simp
  ultimately show ?thesis by blast
qed

lemma integer_text_has_value:
  assumes "s \<noteq> 0" "CHR ''.'' \<notin> set (positive_toString s e)"
    "CHR ''e'' \<notin> set (positive_toString s e)"
  shows "\<exists>c \<in> set (positive_toString s e). parseInt c \<noteq> Some 0"
proof -
  define ds where "ds = significand s"
  define k where "k = int (length ds)"
  define n where "n = point_position s e"
  obtain d where d: "d \<in> set ds" "d \<noteq> 0"
    using digits_of_nonzero [OF assms(1)] significand_keeps_nonzero unfolding ds_def by blast
  then have "d < 10" using significand_less_10 unfolding ds_def by blast
  then have p: "parseInt (digit_char d) = Some d" by (rule parseInt_digit_char)
  have "k \<le> n \<and> n \<le> 21"
  proof (rule ccontr)
    assume "\<not> (k \<le> n \<and> n \<le> 21)"
    then have "CHR ''.'' \<in> set (positive_toString s e) \<or> CHR ''e'' \<in> set (positive_toString s e)"
      by (auto simp add: positive_toString_def Let_def ds_def k_def n_def)
    then show False using assms by blast
  qed
  then have "positive_toString s e = digit_string ds @ replicate (nat (n - k)) CHR ''0''"
    by (simp add: positive_toString_def Let_def ds_def k_def n_def)
  then have "digit_char d \<in> set (positive_toString s e)"
    using d(1) by (simp add: digit_string_def)
  then show ?thesis using p d(2) by (intro bexI [of _ "digit_char d"]) simp_all
qed

lemma split_absent: "sep \<notin> set s \<Longrightarrow> split sep s = [s]"
  by (induction s) auto

text \<open>
  \<open>priceUppercase(num)\<close> of \<open>src/amount.ts\<close> takes the amount only. It renders every
  nonzero exact integer amount (its text has neither a point nor an exponent) as the
  sign, the integer numeral, which is not empty, and \<open>yuan zheng\<close>.
\<close>

lemma priceUppercase_exact_integer:
  assumes "s \<noteq> 0" and "CHR ''.'' \<notin> set (toString (Dec neg s e))"
    and "CHR ''e'' \<notin> set (toString (Dec neg s e))"
  shows "priceUppercase (Dec neg s e) =
           (if neg then [fu] else []) @ convertInteger (positive_toString s e) @ [yuan, zheng]
       \<and> convertInteger (positive_toString s e) \<noteq> []"
proof -
  define numStr where "numStr = positive_toString s e"
  have nodot: "CHR ''.'' \<notin> set numStr" and noexp: "CHR ''e'' \<notin> set numStr"
    using assms by (auto simp: numStr_def split: if_splits)
  have parts: "split CHR ''.'' numStr = [numStr]" using nodot by (rule split_absent)
  obtain c where "c \<in> set numStr" "parseInt c \<noteq> Some 0"
    using integer_text_has_value [OF assms(1)] nodot noexp unfolding numStr_def by blast
  then have int: "convertInteger numStr \<noteq> []" by (rule convertInteger_nonempty)
  have dec: "convertDecimal [] = []" by (simp add: convertDecimal_def)
  have b: "priceUppercase (Dec neg s e) =
           (if neg then [fu] else []) @ convertInteger numStr @ [yuan, zheng]"
    using assms(1) int
    by (simp add: priceUppercase_def Let_def numStr_def [symmetric] parts dec)
  show ?thesis using b int unfolding numStr_def by blast
qed

text \<open>
  C9. The claim: \<open>priceUppercase\<close> takes an optional suffix, \<open>zheng\<close> by default, so that
  \<open>priceUppercase(amount, "")\<close> renders an exact integer amount without the final
  \<open>zheng\<close> and \<open>priceUppercase(amount)\<close> renders it with \<open>zheng\<close>. The revision that
  declares the suffix raises \<open>TypeError\<close> for the amount \<open>1234567\<close> of its own
  documentation, with the empty suffix and without a suffix, where the documentation
  states the numeral ending in \<open>yuan\<close> and in \<open>yuan zheng\<close>; only the zero amount
  returns. \<open>priceUppercase(num)\<close> of \<open>src/amount.ts\<close> returns that numeral ending in
  \<open>yuan zheng\<close> and has no suffix to leave out.
\<close>

theorem priceUppercase_format_raises:
  "priceUppercase_format (Dec False 1234567 0) (Some []) = Inl AssignmentToConstant
   \<and> priceUppercase_format (Dec False 1234567 0) None = Inl AssignmentToConstant
   \<and> priceUppercase_format (Dec False 0 0) (Some []) = Inr [ling, yuan, zheng]
   \<and> priceUppercase (Dec False 1234567 0) =
       [yi, bai, er, shi, san, wan, si, qian, wu, bai, liu, shi, qi, yuan, zheng]"
  by code_simp

section \<open>The arithmetic helpers\<close>

text \<open>
  C2. The claim: for an operand printed in negative exponential notation, the count of
  fractional digits that the four operations use is the magnitude of the exponent plus
  the number of fractional digits of the mantissa, so that \<open>addition(1e-7, 0)\<close> scales by
  \<open>10 ^ 7\<close>. The \<open>getDecimalPlaces\<close> of \<open>math.ts\<close> only looks for the point: it
  counts 0 for \<open>1e-7\<close> and 4 for \<open>1.5e-7\<close> (the length of \<open>5e-7\<close>), and
  \<open>addition(1e-7, 0)\<close>, scaled by \<open>10 ^ 0\<close>, is \<open>0\<close>. The exported function of
  the same name in \<open>amount.ts\<close> decodes the exponent and counts 7 and 8.
\<close>

theorem getDecimalPlaces_exponent_form:
  "toString (Dec False 1 (- 7)) = ''1e-7''
   \<and> getDecimalPlaces (Dec False 1 (- 7)) = 0
   \<and> toString (Dec False 15 (- 8)) = ''1.5e-7''
   \<and> getDecimalPlaces (Dec False 15 (- 8)) = 4
   \<and> addition (Dec False 1 (- 7)) (Dec False 0 0) None = VZero False
   \<and> amount_getDecimalPlaces (Dec False 1 (- 7)) = Some 7
   \<and> amount_getDecimalPlaces (Dec False 15 (- 8)) = Some 8"
  by code_simp

text \<open>
  C8, as stated: \<open>addition(a, b)\<close> equals \<open>subtraction(a, -b)\<close> for all numbers. With
  \<open>a = 0.000001\<close> and \<open>b = 4355404662.6\<close> the counts are 6 and 1 and the scale is
  \<open>10 ^ 6\<close>. The product of \<open>b\<close> and the scale is not a double; the nearest double is
  \<open>4355404662600000.5\<close>, a tie, which \<open>Math.round\<close> takes to \<open>4355404662600001\<close> and
  its negation to \<open>-4355404662600000\<close>. The sum is \<open>4355404662.600002\<close> and the
  difference is \<open>4355404662.600001\<close>.
\<close>

theorem addition_subtraction_differ:
  "toString (Dec False 1 (- 6)) = ''0.000001''
   \<and> toString (Dec False 43554046626 (- 1)) = ''4355404662.6''
   \<and> js_mult (value_of (Dec False 43554046626 (- 1))) (Math_pow10 6)
       = VFin (8710809325200001 / 2)
   \<and> addition (Dec False 1 (- 6)) (Dec False 43554046626 (- 1)) None
       = value_of (Dec False 4355404662600002 (- 6))
   \<and> subtraction (Dec False 1 (- 6)) (negate (Dec False 43554046626 (- 1))) None
       = value_of (Dec False 4355404662600001 (- 6))
   \<and> addition (Dec False 1 (- 6)) (Dec False 43554046626 (- 1)) None
       \<noteq> subtraction (Dec False 1 (- 6)) (negate (Dec False 43554046626 (- 1))) None"
proof -
  have ta: "toString (Dec False 1 (- 6)) = ''0.000001''" by code_simp
  have tb: "toString (Dec False 43554046626 (- 1)) = ''4355404662.6''" by code_simp
  have tie: "js_mult (value_of (Dec False 43554046626 (- 1))) (Math_pow10 6)
      = VFin (8710809325200001 / 2)"
    by code_simp
  have add: "addition (Dec False 1 (- 6)) (Dec False 43554046626 (- 1)) None
      = VFin (1141743199872615 / 262144)"
    by code_simp
  have sub: "subtraction (Dec False 1 (- 6)) (negate (Dec False 43554046626 (- 1))) None
      = VFin (4566972799490459 / 1048576)"
    by code_simp
  have v2: "value_of (Dec False 4355404662600002 (- 6)) = VFin (1141743199872615 / 262144)"
    by code_simp
  have v1: "value_of (Dec False 4355404662600001 (- 6)) = VFin (4566972799490459 / 1048576)"
    by code_simp
  have ne: "VFin (1141743199872615 / 262144) \<noteq> VFin (4566972799490459 / 1048576)"
    by simp
  show ?thesis using ta tb tie add sub v1 v2 ne by (simp only:) simp
qed

text \<open>
  Negating the second operand changes neither its count of decimal places nor the scale,
  and it commutes with scaling; it commutes with \<open>Math.round\<close> except at a tie.
\<close>

lemma indexOf_absent: "indexOf xs c = - 1 \<longleftrightarrow> c \<notin> set xs"
proof (induction xs)
  case Nil
  then show ?case by simp
next
  case (Cons x xs)
  have "- 1 \<le> indexOf xs c" by (induction xs) (auto simp: Let_def)
  then show ?case using Cons by (auto simp: Let_def)
qed


lemma split_second_after_other:
  "c \<noteq> sep \<Longrightarrow> split sep (c # cs) ! 1 = split sep cs ! 1"
  using split_nonempty [of sep cs] by (cases "split sep cs") auto

lemma places_of_text_minus:
  "(if indexOf (CHR ''-'' # s) CHR ''.'' = - 1 then 0
    else length (split CHR ''.'' (CHR ''-'' # s) ! 1))
   = (if indexOf s CHR ''.'' = - 1 then 0 else length (split CHR ''.'' s ! 1))"
proof -
  have a: "split CHR ''.'' (CHR ''-'' # s) ! 1 = split CHR ''.'' s ! 1"
    by (rule split_second_after_other) simp
  have b: "indexOf (CHR ''-'' # s) CHR ''.'' = - 1 \<longleftrightarrow> indexOf s CHR ''.'' = - 1"
    by (simp only: indexOf_absent) simp
  show ?thesis by (simp only: a b)
qed

lemma getDecimalPlaces_negate: "getDecimalPlaces (negate b) = getDecimalPlaces b"
proof (cases b)
  case NaN
  then show ?thesis by simp
next
  case (Infinity neg)
  then show ?thesis by (simp add: getDecimalPlaces_def)
next
  case (Dec neg s e)
  show ?thesis
  proof (cases "s = 0")
    case True
    then show ?thesis using Dec by (simp add: getDecimalPlaces_def)
  next
    case False
    then show ?thesis
      using Dec places_of_text_minus [of "positive_toString s e"]
      by (cases neg) (simp_all add: getDecimalPlaces_def Let_def)
  qed
qed

lemma js_neg_involution: "js_neg (js_neg y) = y"
  by (cases y) auto

lemma pow2_nonzero: "pow2 k \<noteq> 0"
  by (simp add: pow2_def)

lemma to_binary64_finite_nonzero: "to_binary64 q \<noteq> VFin 0"
  by (auto simp: to_binary64_def Let_def pow2_nonzero)

lemma to_binary64_minus: "q \<noteq> 0 \<Longrightarrow> to_binary64 (- q) = js_neg (to_binary64 q)"
  by (auto simp: to_binary64_def Let_def)

lemma value_of_finite_nonzero: "value_of b \<noteq> VFin 0"
  by (cases b) (simp_all add: to_binary64_finite_nonzero)

lemma value_of_negate: "value_of (negate b) = js_neg (value_of b)"
proof (cases b)
  case (Dec neg s e)
  show ?thesis
  proof (cases "s = 0")
    case True
    then show ?thesis using Dec by simp
  next
    case False
    define m :: rat where
      "m = (if 0 \<le> e then of_nat s * 10 ^ nat e else of_nat s / 10 ^ nat (- e))"
    have m: "m \<noteq> 0" using False by (simp add: m_def)
    have "to_binary64 (- m) = js_neg (to_binary64 m)" using m by (rule to_binary64_minus)
    then show ?thesis
      using Dec False by (cases neg) (simp_all add: m_def [symmetric] js_neg_involution)
  qed
qed simp_all

lemma js_mult_neg:
  assumes "x \<noteq> VFin 0" "y \<noteq> VFin 0"
  shows "js_mult (js_neg x) y = js_neg (js_mult x y)"
proof (cases x)
  case (VFin p)
  then have p: "p \<noteq> 0" using assms(1) by simp
  show ?thesis
  proof (cases y)
    case y: (VFin q)
    then have "p * q \<noteq> 0" using p assms(2) by simp
    then have "to_binary64 (- (p * q)) = js_neg (to_binary64 (p * q))"
      by (rule to_binary64_minus)
    then show ?thesis using VFin y by simp
  qed (use VFin p in \<open>auto simp: not_less less_le\<close>)
next
  case (VZero a)
  then show ?thesis by (cases y) auto
next
  case (VInf a)
  then show ?thesis by (cases y) auto
next
  case VNaN
  then show ?thesis by (cases y) auto
qed

lemma js_mult_neg_pow10:
  "js_mult (js_neg (value_of b)) (Math_pow10 k) = js_neg (js_mult (value_of b) (Math_pow10 k))"
  by (rule js_mult_neg) (simp_all add: value_of_finite_nonzero Math_pow10_def to_binary64_finite_nonzero)

lemma js_sub_neg: "js_sub x (js_neg y) = js_add x y"
  by (simp add: js_sub_def js_neg_involution)

lemma floor_negated_half:
  fixes q :: rat
  assumes "of_int \<lfloor>q + 1 / 2\<rfloor> \<noteq> q + 1 / 2"
  shows "\<lfloor>- q + 1 / 2\<rfloor> = - \<lfloor>q + 1 / 2\<rfloor>"
proof -
  define n where "n = \<lfloor>q + 1 / 2\<rfloor>"
  have "of_int n \<le> q + 1 / 2" "q + 1 / 2 < of_int n + 1"
    unfolding n_def by linarith+
  moreover have "of_int n \<noteq> q + 1 / 2" using assms by (simp add: n_def)
  ultimately have "of_int (- n) \<le> - q + 1 / 2" "- q + 1 / 2 < of_int (- n) + 1"
    by simp_all
  then have "\<lfloor>- q + 1 / 2\<rfloor> = - n" by linarith
  then show ?thesis by (simp add: n_def)
qed

lemma Math_round_neg:
  assumes "\<not> is_tie y" "y \<noteq> VFin 0"
  shows "Math_round (js_neg y) = js_neg (Math_round y)"
proof (cases y)
  case (VFin q)
  with assms have nt: "of_int \<lfloor>q + 1 / 2\<rfloor> \<noteq> q + 1 / 2" and q0: "q \<noteq> 0" by simp_all
  define n where "n = \<lfloor>q + 1 / 2\<rfloor>"
  have fl: "\<lfloor>- q + 1 / 2\<rfloor> = - n" unfolding n_def using nt by (rule floor_negated_half)
  have "- q + 1 / 2 = 1 / 2 - q" by simp
  then have fl': "\<lfloor>1 / 2 - q\<rfloor> = - n" using fl by simp
  have l: "Math_round (js_neg y) = (if n = 0 then VZero (- q < 0) else VFin (of_int (- n)))"
    by (simp add: VFin Let_def fl')
  have r: "Math_round y = (if n = 0 then VZero (q < 0) else VFin (of_int n))"
    by (simp add: VFin Let_def n_def)
  show ?thesis unfolding l r using q0 by auto
qed simp_all

lemma scaled_value_not_junk: "js_mult (value_of b) (Math_pow10 k) \<noteq> VFin 0"
proof (cases "value_of b")
  case x: (VFin p)
  show ?thesis
    by (cases "Math_pow10 k") (simp_all add: x to_binary64_finite_nonzero)
next
  case x: (VZero a)
  show ?thesis by (cases "Math_pow10 k") (simp_all add: x)
next
  case x: (VInf a)
  show ?thesis by (cases "Math_pow10 k") (simp_all add: x)
next
  case x: VNaN
  show ?thesis by (cases "Math_pow10 k") (simp_all add: x)
qed

text \<open>
  C8, as amended. \<open>addition(a, b, decimal)\<close> equals \<open>subtraction(a, -b, decimal)\<close>
  exactly, with or without the argument \<open>decimal\<close>, whenever the product of the second
  operand and \<open>10 ^ m\<close>, as the double arithmetic computes it, is not a tie of
  \<open>Math.round\<close>, \<open>m\<close> being the larger of the two counts of \<open>getDecimalPlaces\<close>. Equal
  means the same value; when an operand is \<open>NaN\<close> both results are \<open>NaN\<close>.
\<close>

theorem addition_eq_subtraction_negated:
  assumes "\<not> is_tie (js_mult (value_of b)
             (Math_pow10 (max (getDecimalPlaces a) (getDecimalPlaces b))))"
  shows "addition a b d = subtraction a (negate b) d"
proof -
  define m where "m = Math_pow10 (max (getDecimalPlaces a) (getDecimalPlaces b))"
  define x where "x = Math_round (js_mult (value_of a) m)"
  define y where "y = js_mult (value_of b) m"
  have "js_mult (value_of (negate b)) m = js_neg y"
    unfolding y_def m_def by (simp only: value_of_negate js_mult_neg_pow10)
  moreover have "Math_round (js_neg y) = js_neg (Math_round y)"
    using assms scaled_value_not_junk unfolding y_def m_def by (intro Math_round_neg) simp_all
  ultimately have eq: "js_sub x (Math_round (js_mult (value_of (negate b)) m))
                     = js_add x (Math_round y)"
    by (simp add: js_sub_neg)
  have "subtraction a (negate b) d =
          (let result = js_div (js_sub x (Math_round (js_mult (value_of (negate b)) m))) m
           in case d of
                None \<Rightarrow> result
              | Some k \<Rightarrow>
                  if k > 0
                  then js_div (Math_round (js_mult result (Math_pow10 (nat k)))) (Math_pow10 (nat k))
                  else result)"
    by (simp add: subtraction_def Let_def getDecimalPlaces_negate m_def x_def)
  moreover have "addition a b d =
          (let result = js_div (js_add x (Math_round y)) m
           in case d of
                None \<Rightarrow> result
              | Some k \<Rightarrow>
                  if k > 0
                  then js_div (Math_round (js_mult result (Math_pow10 (nat k)))) (Math_pow10 (nat k))
                  else result)"
    by (simp add: addition_def Let_def m_def x_def y_def)
  ultimately show ?thesis by (simp only: eq)
qed

theorem addition_eq_subtraction_negated_witness:
  "\<not> is_tie (js_mult (value_of (Dec False 2 (- 1)))
       (Math_pow10 (max (getDecimalPlaces (Dec False 1 (- 1))) (getDecimalPlaces (Dec False 2 (- 1))))))
   \<and> addition (Dec False 1 (- 1)) (Dec False 2 (- 1)) None
       = subtraction (Dec False 1 (- 1)) (negate (Dec False 2 (- 1))) None
   \<and> addition (Dec False 1 (- 1)) (Dec False 2 (- 1)) None = value_of (Dec False 3 (- 1))"
proof -
  have nt: "\<not> is_tie (js_mult (value_of (Dec False 2 (- 1)))
       (Math_pow10 (max (getDecimalPlaces (Dec False 1 (- 1))) (getDecimalPlaces (Dec False 2 (- 1))))))"
    by code_simp
  have v: "addition (Dec False 1 (- 1)) (Dec False 2 (- 1)) None = value_of (Dec False 3 (- 1))"
    by code_simp
  from addition_eq_subtraction_negated [OF nt, of None] nt v show ?thesis by blast
qed

text \<open>
  C3. The claim: \<open>divisionOperation\<close> raises the division-by-zero error exactly when the
  divisor is zero, and for every other divisor returns the quotient of the operands
  scaled by \<open>10 ^ m\<close> and rounded, \<open>m\<close> the larger of the operands' counts of
  fractional digits. The error is raised exactly for a zero divisor, of either sign.
  For the divisor \<open>1e-7\<close> the count of \<open>math.ts\<close> is 0 and not 7: \<open>divisionOperation(1,
  1e-7)\<close> divides \<open>Math.round(1)\<close> by \<open>Math.round(1e-7)\<close>, which is zero, and returns
  \<open>Infinity\<close>, where the quotient scaled by \<open>10 ^ 7\<close> is \<open>10 ^ 7\<close>; the count of the
  exported \<open>getDecimalPlaces\<close> of \<open>amount.ts\<close> is 7.
\<close>

theorem divisionOperation_exponent_divisor:
  "(divisionOperation a b d = Inl DivisionByZero \<longleftrightarrow> is_zero b)
   \<and> toString (Dec False 1 (- 7)) = ''1e-7''
   \<and> getDecimalPlaces (Dec False 1 0) = 0
   \<and> getDecimalPlaces (Dec False 1 (- 7)) = 0
   \<and> divisionOperation (Dec False 1 0) (Dec False 1 (- 7)) None = Inr (VInf False)
   \<and> amount_getDecimalPlaces (Dec False 1 (- 7)) = Some 7
   \<and> js_div (Math_round (js_mult (value_of (Dec False 1 0)) (Math_pow10 7)))
             (Math_round (js_mult (value_of (Dec False 1 (- 7))) (Math_pow10 7)))
       = value_of (Dec False 1 7)"
proof -
  have "divisionOperation a b d = Inl DivisionByZero \<longleftrightarrow> is_zero b"
    by (auto simp: divisionOperation_def Let_def split: option.splits)
  moreover have "toString (Dec False 1 (- 7)) = ''1e-7''" by code_simp
  moreover have "getDecimalPlaces (Dec False 1 0) = 0" by code_simp
  moreover have "getDecimalPlaces (Dec False 1 (- 7)) = 0" by code_simp
  moreover have "divisionOperation (Dec False 1 0) (Dec False 1 (- 7)) None = Inr (VInf False)"
    by code_simp
  moreover have "amount_getDecimalPlaces (Dec False 1 (- 7)) = Some 7" by code_simp
  moreover have "js_div (Math_round (js_mult (value_of (Dec False 1 0)) (Math_pow10 7)))
             (Math_round (js_mult (value_of (Dec False 1 (- 7))) (Math_pow10 7)))
       = value_of (Dec False 1 7)"
    by code_simp
  ultimately show ?thesis by blast
qed

section \<open>The coordinate transforms\<close>

text \<open>
  C6. Inside the bounding box, \<open>gcj02towgs84\<close> returns the mirror image of the point that
  \<open>wgs84togcj02\<close> computes for the same input, \<open>(2 * lng - g_lng, 2 * lat - g_lat)\<close>;
  outside the box it returns its input.
\<close>

theorem gcj02towgs84_reflects_forward_point:
  "gcj02towgs84 lng lat =
     (if out_of_china lng lat then (lng, lat)
      else (2 * lng - fst (wgs84togcj02 lng lat), 2 * lat - snd (wgs84togcj02 lng lat)))"
  by (simp add: gcj02towgs84_def wgs84togcj02_def Let_def)

theorem gcj02towgs84_reflects_forward_point_witness:
  "\<not> out_of_china 116.404 39.915
   \<and> gcj02towgs84 116.404 39.915 =
       (2 * 116.404 - fst (wgs84togcj02 116.404 39.915),
        2 * 39.915 - snd (wgs84togcj02 116.404 39.915))
   \<and> out_of_china 0 0 \<and> gcj02towgs84 0 0 = (0, 0)"
proof -
  have inside: "\<not> out_of_china 116.404 39.915" by (simp add: out_of_china_def)
  have outside: "out_of_china 0 0" by (simp add: out_of_china_def)
  from gcj02towgs84_reflects_forward_point [of "116.404" "39.915"] inside
  have "gcj02towgs84 116.404 39.915 =
          (2 * 116.404 - fst (wgs84togcj02 116.404 39.915),
           2 * 39.915 - snd (wgs84togcj02 116.404 39.915))"
    by simp
  moreover
  from gcj02towgs84_reflects_forward_point [of 0 0] outside
  have "gcj02towgs84 0 0 = (0, 0)" by simp
  ultimately show ?thesis using inside outside by blast
qed

subsection \<open>The round trip through BD-09\<close>

text \<open>
  Both transforms work in polar coordinates around the origin: \<open>bd09togcj02\<close> removes
  the offset \<open>(0.0065, 0.006)\<close> and then corrects radius and angle by a sine and a
  cosine read at the shifted input, \<open>gcj02tobd09\<close> corrects by the same functions read
  at its own input and then adds the offset. Polar coordinates, the Lipschitz bounds of
  sine and cosine, and a bound on \<open>pi\<close> from the sine series are what the comparison
  needs.
\<close>

lemma polar_form:
  fixes x y :: real
  assumes "0 < x"
  shows "sqrt (x * x + y * y) * cos (arctan (y / x)) = x"
    and "sqrt (x * x + y * y) * sin (arctan (y / x)) = y"
proof -
  have "1 + (y / x)\<^sup>2 = (x * x + y * y) / x\<^sup>2"
    using assms by (simp add: field_simps power2_eq_square)
  then have "sqrt (1 + (y / x)\<^sup>2) = sqrt (x * x + y * y) / x"
    using assms by (simp add: real_sqrt_divide)
  moreover have "0 < sqrt (x * x + y * y)"
    using assms by (simp add: add_pos_nonneg)
  ultimately show "sqrt (x * x + y * y) * cos (arctan (y / x)) = x"
    and "sqrt (x * x + y * y) * sin (arctan (y / x)) = y"
    using assms by (simp_all add: cos_arctan sin_arctan)
qed

lemma sin_lipschitz: "\<bar>sin p - sin q\<bar> \<le> \<bar>p - q\<bar>" for p q :: real
proof -
  have "\<bar>sin p - sin q\<bar> = 2 * \<bar>sin ((p - q) / 2)\<bar> * \<bar>cos ((p + q) / 2)\<bar>"
    by (simp add: sin_diff_sin abs_mult)
  also have "\<dots> \<le> 2 * \<bar>(p - q) / 2\<bar> * 1"
    by (intro mult_mono mult_nonneg_nonneg abs_sin_x_le_abs_x) simp_all
  finally show ?thesis by simp
qed

lemma cos_lipschitz: "\<bar>cos p - cos q\<bar> \<le> \<bar>p - q\<bar>" for p q :: real
proof -
  have "\<bar>cos p - cos q\<bar> = 2 * \<bar>sin ((p + q) / 2)\<bar> * \<bar>sin ((q - p) / 2)\<bar>"
    by (simp add: cos_diff_cos abs_mult)
  also have "\<dots> \<le> 2 * 1 * \<bar>(q - p) / 2\<bar>"
    by (intro mult_mono mult_nonneg_nonneg abs_sin_x_le_abs_x) simp_all
  finally show ?thesis by (simp add: abs_minus_commute)
qed

lemma polar_perturbation:
  fixes z r t p :: real
  assumes "0 \<le> r"
  shows "\<bar>z * cos t - r * cos p\<bar> \<le> \<bar>z - r\<bar> + r * \<bar>t - p\<bar>"
    and "\<bar>z * sin t - r * sin p\<bar> \<le> \<bar>z - r\<bar> + r * \<bar>t - p\<bar>"
proof -
  have "z * cos t - r * cos p = (z - r) * cos t + r * (cos t - cos p)"
    by (simp add: algebra_simps)
  then have "\<bar>z * cos t - r * cos p\<bar> \<le> \<bar>z - r\<bar> * \<bar>cos t\<bar> + r * \<bar>cos t - cos p\<bar>"
    using assms by (metis abs_mult abs_of_nonneg abs_triangle_ineq)
  also have "\<dots> \<le> \<bar>z - r\<bar> * 1 + r * \<bar>t - p\<bar>"
    using assms by (intro add_mono mult_left_mono cos_lipschitz) simp_all
  finally show "\<bar>z * cos t - r * cos p\<bar> \<le> \<bar>z - r\<bar> + r * \<bar>t - p\<bar>" by simp
  have "z * sin t - r * sin p = (z - r) * sin t + r * (sin t - sin p)"
    by (simp add: algebra_simps)
  then have "\<bar>z * sin t - r * sin p\<bar> \<le> \<bar>z - r\<bar> * \<bar>sin t\<bar> + r * \<bar>sin t - sin p\<bar>"
    using assms by (metis abs_mult abs_of_nonneg abs_triangle_ineq)
  also have "\<dots> \<le> \<bar>z - r\<bar> * 1 + r * \<bar>t - p\<bar>"
    using assms by (intro add_mono mult_left_mono sin_lipschitz) simp_all
  finally show "\<bar>z * sin t - r * sin p\<bar> \<le> \<bar>z - r\<bar> + r * \<bar>t - p\<bar>" by simp
qed

lemma sin_poly_16:
  "(\<Sum>m<16. sin_coeff m * x ^ m) =
     x - x^3 / 6 + x^5 / 120 - x^7 / 5040 + x^9 / 362880 - x^11 / 39916800
     + x^13 / 6227020800 - x^15 / 1307674368000" for x :: real
  by (simp add: lessThan_nat_numeral lessThan_Suc sin_coeff_def fact_numeral)

lemma sin_bound_16:
  "\<bar>sin x - (x - x^3 / 6 + x^5 / 120 - x^7 / 5040 + x^9 / 362880 - x^11 / 39916800
     + x^13 / 6227020800 - x^15 / 1307674368000)\<bar> \<le> \<bar>x\<bar> ^ 16 / 20922789888000"
  for x :: real
proof -
  have "\<bar>sin x - (\<Sum>m<16. sin_coeff m * x ^ m)\<bar> \<le> inverse (fact 16) * \<bar>x\<bar> ^ 16"
    by (rule Maclaurin_sin_bound)
  moreover have "inverse (fact 16 :: real) = 1 / 20922789888000"
    by (simp add: fact_numeral)
  ultimately show ?thesis by (simp add: sin_poly_16)
qed

lemma pi_gt_3141: "3.141 < pi"
proof (rule ccontr)
  define x :: real where "x = 3.141"
  define p where "p = x - x^3 / 6 + x^5 / 120 - x^7 / 5040 + x^9 / 362880 - x^11 / 39916800
     + x^13 / 6227020800 - x^15 / 1307674368000"
  define e where "e = \<bar>x\<bar> ^ 16 / 20922789888000"
  assume "\<not> 3.141 < pi"
  then have "pi \<le> x" by (simp add: x_def)
  moreover have "x < 2 * pi" using pi_ge_two by (simp add: x_def)
  ultimately have "sin x \<le> 0" by (rule sin_le_zero)
  moreover have "\<bar>sin x - p\<bar> \<le> e" unfolding p_def e_def by (rule sin_bound_16)
  moreover have "e < p" by (simp add: p_def e_def x_def power_divide)
  ultimately show False by linarith
qed

lemma pi_lt_3142: "pi < 3.142"
proof (rule ccontr)
  define x :: real where "x = 3.142"
  define p where "p = x - x^3 / 6 + x^5 / 120 - x^7 / 5040 + x^9 / 362880 - x^11 / 39916800
     + x^13 / 6227020800 - x^15 / 1307674368000"
  define e where "e = \<bar>x\<bar> ^ 16 / 20922789888000"
  assume "\<not> pi < 3.142"
  then have "x \<le> pi" by (simp add: x_def)
  then have "0 \<le> sin x" by (intro sin_ge_zero) (simp_all add: x_def)
  moreover have "\<bar>sin x - p\<bar> \<le> e" unfolding p_def e_def by (rule sin_bound_16)
  moreover have "p + e < 0" by (simp add: p_def e_def x_def power_divide)
  ultimately show False by linarith
qed

lemma X_PI_bounds: "52.35 < X_PI" "X_PI < 52.36"
  by (simp_all add: X_PI_def)

lemma gcj02tobd09_polar:
  assumes "0 < z" "- (pi / 2) < t" "t < pi / 2"
  shows "gcj02tobd09 (z * cos t) (z * sin t) =
    ((z + 0.00002 * sin (z * sin t * X_PI)) * cos (t + 0.000003 * cos (z * cos t * X_PI)) + 0.0065,
     (z + 0.00002 * sin (z * sin t * X_PI)) * sin (t + 0.000003 * cos (z * cos t * X_PI)) + 0.006)"
proof -
  have c: "0 < cos t" using assms by (simp add: cos_gt_zero_pi)
  have "z * cos t * (z * cos t) + z * sin t * (z * sin t)
          = z * z * (cos t * cos t + sin t * sin t)"
    by (simp only: algebra_simps)
  also have "\<dots> = z * z"
    using sin_cos_squared_add2 [of t] by (simp add: power2_eq_square)
  finally have norm: "sqrt (z * cos t * (z * cos t) + z * sin t * (z * sin t)) = z"
    using assms(1) by simp
  have pos: "0 < z * cos t" using assms(1) c by simp
  have "z * sin t / (z * cos t) = tan t" using assms(1) by (simp add: tan_def)
  then have ang: "Math_atan2 (z * sin t) (z * cos t) = t"
    using pos assms by (simp add: Math_atan2_def arctan_tan)
  show ?thesis unfolding gcj02tobd09_def Let_def norm ang ..
qed

lemma roundtrip_quantities:
  fixes lng lat x y r p z t u v :: real
  assumes inside: "\<not> out_of_china lng lat"
    and x: "x = lng - 0.0065" and y: "y = lat - 0.006"
    and r: "r = sqrt (x * x + y * y)" and p: "p = arctan (y / x)"
    and z: "z = r - 0.00002 * sin (y * X_PI)"
    and t: "t = p - 0.000003 * cos (x * X_PI)"
    and u: "u = z * cos t" and v: "v = z * sin t"
  shows "bd09togcj02 lng lat = (u, v)"
    and "gcj02tobd09 u v =
      ((z + 0.00002 * sin (v * X_PI)) * cos (t + 0.000003 * cos (u * X_PI)) + 0.0065,
       (z + 0.00002 * sin (v * X_PI)) * sin (t + 0.000003 * cos (u * X_PI)) + 0.006)"
    and "lng = r * cos p + 0.0065" and "lat = r * sin p + 0.006"
    and "73 < r" and "r \<le> 146"
    and "\<bar>z - r\<bar> \<le> 0.00002" and "\<bar>t - p\<bar> \<le> 0.000003"
    and "0 < p" and "p < pi / 4"
proof -
  have xr: "73.6535 < x" "x < 135.0435" and yr: "3.854 < y" "y < 53.544"
    using inside by (simp_all add: out_of_china_def x y)
  then have x0: "0 < x" and y0: "0 < y" and yx: "y < x" by simp_all
  show b: "bd09togcj02 lng lat = (u, v)"
    using x0 by (simp add: bd09togcj02_def Math_atan2_def Let_def x y r p z t u v)
  show "lng = r * cos p + 0.0065" using polar_form(1) [OF x0, of y] by (simp add: r p x)
  show "lat = r * sin p + 0.006" using polar_form(2) [OF x0, of y] by (simp add: r p y)
  have "x \<le> r" unfolding r by (rule le_real_sqrt_sumsq)
  then show r73: "73 < r" using xr by simp
  have "x * x \<le> 135.0435 * 135.0435" using xr x0 by (intro mult_mono) simp_all
  moreover have "y * y \<le> 53.544 * 53.544" using yr y0 by (intro mult_mono) simp_all
  ultimately have "x * x + y * y \<le> 146\<^sup>2" by (simp add: power2_eq_square)
  then have "r \<le> sqrt (146\<^sup>2)" unfolding r by (rule real_sqrt_le_mono)
  then show "r \<le> 146" by simp
  have "\<bar>z - r\<bar> = 0.00002 * \<bar>sin (y * X_PI)\<bar>" by (simp add: z abs_mult)
  also have "\<dots> \<le> 0.00002 * 1" by (intro mult_left_mono) simp_all
  finally show zr: "\<bar>z - r\<bar> \<le> 0.00002" by simp
  have "\<bar>t - p\<bar> = 0.000003 * \<bar>cos (x * X_PI)\<bar>" by (simp add: t abs_mult)
  also have "\<dots> \<le> 0.000003 * 1" by (intro mult_left_mono) simp_all
  finally show tp: "\<bar>t - p\<bar> \<le> 0.000003" by simp
  have "0 < y / x" using x0 y0 by simp
  then show p0: "0 < p" by (simp add: p)
  have "y / x < 1" using x0 yx by simp
  then have "arctan (y / x) < arctan 1" by (simp only: arctan_less_iff)
  then show p4: "p < pi / 4" by (simp add: p arctan_one)
  have "\<bar>z - r\<bar> \<le> 1" using zr by simp
  then have z0: "0 < z" using r73 by linarith
  have "\<bar>t - p\<bar> \<le> 1 / 2" using tp by simp
  then have "- (pi / 2) < t" "t < pi / 2" using p0 p4 pi_ge_two by linarith+
  then show "gcj02tobd09 u v =
      ((z + 0.00002 * sin (v * X_PI)) * cos (t + 0.000003 * cos (u * X_PI)) + 0.0065,
       (z + 0.00002 * sin (v * X_PI)) * sin (t + 0.000003 * cos (u * X_PI)) + 0.006)"
    unfolding u v by (rule gcj02tobd09_polar [OF z0])
qed

lemma sin_cos_shift:
  "sin (a + real n * pi) = (- 1) ^ n * sin a" "cos (a + real n * pi) = (- 1) ^ n * cos a"
  by (simp_all add: sin_add cos_add)

text \<open>
  C7, as amended. For every point inside the bounding box, the round trip
  \<open>gcj02tobd09 (bd09togcj02 (lng, lat))\<close> returns a point within \<open>0.000011\<close> degrees
  of \<open>(lng, lat)\<close> in each coordinate, in exact real arithmetic.
\<close>

theorem bd09_roundtrip_close:
  assumes "\<not> out_of_china lng lat"
  shows "\<bar>fst (gcj02tobd09 (fst (bd09togcj02 lng lat)) (snd (bd09togcj02 lng lat))) - lng\<bar>
           \<le> 0.000011
       \<and> \<bar>snd (gcj02tobd09 (fst (bd09togcj02 lng lat)) (snd (bd09togcj02 lng lat))) - lat\<bar>
           \<le> 0.000011"
proof -
  define x where "x = lng - 0.0065"
  define y where "y = lat - 0.006"
  define r where "r = sqrt (x * x + y * y)"
  define p where "p = arctan (y / x)"
  define z where "z = r - 0.00002 * sin (y * X_PI)"
  define t where "t = p - 0.000003 * cos (x * X_PI)"
  define u where "u = z * cos t"
  define v where "v = z * sin t"
  define z' where "z' = z + 0.00002 * sin (v * X_PI)"
  define t' where "t' = t + 0.000003 * cos (u * X_PI)"
  note q = roundtrip_quantities [OF assms x_def y_def r_def p_def z_def t_def u_def v_def]
  have r0: "0 \<le> r" using q(5) by simp
  have xp: "x = r * cos p" using q(3) by (simp add: x_def)
  have yp: "y = r * sin p" using q(4) by (simp add: y_def)
  have "r * \<bar>t - p\<bar> \<le> 146 * 0.000003"
    using q(6) q(8) r0 by (intro mult_mono) simp_all
  then have d: "\<bar>z - r\<bar> + r * \<bar>t - p\<bar> \<le> 0.000458" using q(7) by simp
  have "\<bar>u - x\<bar> \<le> \<bar>z - r\<bar> + r * \<bar>t - p\<bar>"
    unfolding u_def xp by (rule polar_perturbation(1) [OF r0])
  then have ux: "\<bar>u - x\<bar> \<le> 0.000458" using d by linarith
  have "\<bar>v - y\<bar> \<le> \<bar>z - r\<bar> + r * \<bar>t - p\<bar>"
    unfolding v_def yp by (rule polar_perturbation(2) [OF r0])
  then have vy: "\<bar>v - y\<bar> \<le> 0.000458" using d by linarith
  have X0: "0 \<le> X_PI" using X_PI_bounds by simp
  have "\<bar>sin (v * X_PI) - sin (y * X_PI)\<bar> \<le> \<bar>v * X_PI - y * X_PI\<bar>"
    by (rule sin_lipschitz)
  also have "\<dots> = \<bar>v - y\<bar> * X_PI" using X0 by (simp add: abs_mult flip: left_diff_distrib)
  also have "\<dots> \<le> 0.000458 * 52.36"
    using vy X_PI_bounds X0 by (intro mult_mono) simp_all
  finally have s: "\<bar>sin (v * X_PI) - sin (y * X_PI)\<bar> \<le> 0.000458 * 52.36" .
  have "\<bar>cos (u * X_PI) - cos (x * X_PI)\<bar> \<le> \<bar>u * X_PI - x * X_PI\<bar>"
    by (rule cos_lipschitz)
  also have "\<dots> = \<bar>u - x\<bar> * X_PI" using X0 by (simp add: abs_mult flip: left_diff_distrib)
  also have "\<dots> \<le> 0.000458 * 52.36"
    using ux X_PI_bounds X0 by (intro mult_mono) simp_all
  finally have c: "\<bar>cos (u * X_PI) - cos (x * X_PI)\<bar> \<le> 0.000458 * 52.36" .
  have zeq: "z' - r = 0.00002 * (sin (v * X_PI) - sin (y * X_PI))"
    by (simp add: z'_def z_def algebra_simps)
  have "\<bar>z' - r\<bar> = \<bar>0.00002 * (sin (v * X_PI) - sin (y * X_PI))\<bar>"
    by (simp only: zeq)
  also have "\<dots> = 0.00002 * \<bar>sin (v * X_PI) - sin (y * X_PI)\<bar>"
    by (subst abs_mult) simp
  also have "\<dots> \<le> 0.00002 * (0.000458 * 52.36)"
    using s by (intro mult_left_mono) simp_all
  finally have zr: "\<bar>z' - r\<bar> \<le> 0.00002 * (0.000458 * 52.36)" .
  have teq: "t' - p = 0.000003 * (cos (u * X_PI) - cos (x * X_PI))"
    by (simp add: t'_def t_def algebra_simps)
  have "\<bar>t' - p\<bar> = \<bar>0.000003 * (cos (u * X_PI) - cos (x * X_PI))\<bar>"
    by (simp only: teq)
  also have "\<dots> = 0.000003 * \<bar>cos (u * X_PI) - cos (x * X_PI)\<bar>"
    by (subst abs_mult) simp
  also have "\<dots> \<le> 0.000003 * (0.000458 * 52.36)"
    using c by (intro mult_left_mono) simp_all
  finally have tp: "\<bar>t' - p\<bar> \<le> 0.000003 * (0.000458 * 52.36)" .
  have "r * \<bar>t' - p\<bar> \<le> 146 * (0.000003 * (0.000458 * 52.36))"
    using q(6) tp r0 by (intro mult_mono) simp_all
  then have e: "\<bar>z' - r\<bar> + r * \<bar>t' - p\<bar> \<le> 0.000011" using zr by simp
  have "\<bar>z' * cos t' - r * cos p\<bar> \<le> \<bar>z' - r\<bar> + r * \<bar>t' - p\<bar>"
    by (rule polar_perturbation(1) [OF r0])
  then have ex: "\<bar>z' * cos t' - r * cos p\<bar> \<le> 0.000011" using e by linarith
  have "\<bar>z' * sin t' - r * sin p\<bar> \<le> \<bar>z' - r\<bar> + r * \<bar>t' - p\<bar>"
    by (rule polar_perturbation(2) [OF r0])
  then have ey: "\<bar>z' * sin t' - r * sin p\<bar> \<le> 0.000011" using e by linarith
  have "fst (gcj02tobd09 u v) - lng = z' * cos t' - r * cos p"
    using q(2) q(3) by (simp add: z'_def t'_def)
  moreover have "snd (gcj02tobd09 u v) - lat = z' * sin t' - r * sin p"
    using q(2) q(4) by (simp add: z'_def t'_def)
  ultimately show ?thesis using ex ey q(1) by simp
qed

theorem bd09_roundtrip_close_witness:
  "\<not> out_of_china 116.404 39.915
   \<and> \<bar>fst (gcj02tobd09 (fst (bd09togcj02 116.404 39.915)) (snd (bd09togcj02 116.404 39.915)))
         - 116.404\<bar> \<le> 0.000011
   \<and> \<bar>snd (gcj02tobd09 (fst (bd09togcj02 116.404 39.915)) (snd (bd09togcj02 116.404 39.915)))
         - 39.915\<bar> \<le> 0.000011"
proof -
  have inside: "\<not> out_of_china 116.404 39.915" by (simp add: out_of_china_def)
  from bd09_roundtrip_close [OF inside] inside show ?thesis by blast
qed

text \<open>
  C7, as stated: the round trip recovers the input because the two transforms are exact
  inverses of each other. They are not: at \<open>(116.4065, 39.861)\<close> both corrections of
  \<open>bd09togcj02\<close> are positive, so the intermediate point has a smaller latitude offset,
  the sine that \<open>gcj02tobd09\<close> reads there is strictly smaller than the one that was
  subtracted, and the radius of the result is strictly smaller than that of the input.
\<close>

theorem bd09_roundtrip_not_exact:
  "\<not> out_of_china 116.4065 39.861
   \<and> gcj02tobd09 (fst (bd09togcj02 116.4065 39.861)) (snd (bd09togcj02 116.4065 39.861))
       \<noteq> (116.4065, 39.861)"
proof -
  define lng :: real where "lng = 116.4065"
  define lat :: real where "lat = 39.861"
  define x where "x = lng - 0.0065"
  define y where "y = lat - 0.006"
  define r where "r = sqrt (x * x + y * y)"
  define p where "p = arctan (y / x)"
  define z where "z = r - 0.00002 * sin (y * X_PI)"
  define t where "t = p - 0.000003 * cos (x * X_PI)"
  define u where "u = z * cos t"
  define v where "v = z * sin t"
  define z' where "z' = z + 0.00002 * sin (v * X_PI)"
  define t' where "t' = t + 0.000003 * cos (u * X_PI)"
  define P :: real where "P = 3.14159265358979324"
  have inside: "\<not> out_of_china lng lat" by (simp add: out_of_china_def lng_def lat_def)
  note q = roundtrip_quantities [OF inside x_def y_def r_def p_def z_def t_def u_def v_def]
  have pi_lo: "3.141 < pi" and pi_hi: "pi < 3.142" by (rule pi_gt_3141, rule pi_lt_3142)
  have Pd: "- 0.00041 < P - pi" "P - pi < 0.0006" using pi_lo pi_hi by (simp_all add: P_def)
  \<comment> \<open>the two correction terms of the backward transform are positive at this point\<close>
  have xX: "x * X_PI = 1940 * (P - pi) + real 1940 * pi"
    by (simp add: x_def lng_def X_PI_def P_def algebra_simps)
  have "cos (x * X_PI) = cos (1940 * (P - pi))"
    unfolding xX by (subst sin_cos_shift(2)) simp
  moreover have "0 < cos (1940 * (P - pi))"
    using Pd pi_lo by (intro cos_gt_zero_pi) simp_all
  ultimately have c1: "0 < cos (x * X_PI)" by simp
  define a where "a = 0.25 * P + 664 * (P - pi)"
  have a: "0.5 < a" "a < 1.2" using Pd by (simp_all add: a_def P_def)
  have yX: "y * X_PI = a + real 664 * pi"
    by (simp add: y_def lat_def X_PI_def P_def a_def algebra_simps)
  have s1: "sin (y * X_PI) = sin a"
    unfolding yX by (subst sin_cos_shift(1)) simp
  have "0 < sin a" using a pi_lo by (intro sin_gt_zero) simp_all
  then have s1_pos: "0 < sin (y * X_PI)" using s1 by simp
  \<comment> \<open>so the intermediate point has a smaller latitude offset than the input\<close>
  have zr: "z < r" using s1_pos by (simp add: z_def)
  have z0: "0 < z"
  proof -
    have "\<bar>z - r\<bar> \<le> 1" using q(7) by simp
    then show ?thesis using q(5) by linarith
  qed
  have tp: "t < p" using c1 by (simp add: t_def)
  have t_lo: "- (pi / 2) < t"
  proof -
    have "\<bar>t - p\<bar> \<le> 1 / 2" using q(8) by simp
    then show ?thesis using q(9) pi_ge_two by linarith
  qed
  have p_hi: "p < pi / 2" using q(10) pi_gt_zero by linarith
  have yp: "y = r * sin p" using q(4) by (simp add: y_def)
  have sp: "0 < sin p" using q(9) p_hi by (intro sin_gt_zero) simp_all
  have st: "sin t < sin p" using t_lo tp p_hi by (intro sin_monotone_2pi) simp_all
  have vy: "v < y"
  proof (cases "0 < sin t")
    case True
    have "z * sin t < r * sin t" using zr True by simp
    also have "\<dots> < r * sin p" using st q(5) by simp
    finally show ?thesis by (simp add: v_def yp)
  next
    case False
    then have "z * sin t \<le> 0" using z0 by (simp add: mult_le_0_iff)
    moreover have "0 < r * sin p" using sp q(5) by simp
    ultimately show ?thesis by (simp add: v_def yp)
  qed
  \<comment> \<open>the forward transform reads its sine at that smaller latitude\<close>
  have close: "y - v \<le> 0.000458"
  proof -
    have r0: "0 \<le> r" using q(5) by simp
    have "r * \<bar>t - p\<bar> \<le> 146 * 0.000003"
      using q(6) q(8) r0 by (intro mult_mono) simp_all
    then have "\<bar>z - r\<bar> + r * \<bar>t - p\<bar> \<le> 0.000458" using q(7) by simp
    moreover have "\<bar>v - y\<bar> \<le> \<bar>z - r\<bar> + r * \<bar>t - p\<bar>"
      unfolding v_def yp by (rule polar_perturbation(2) [OF r0])
    ultimately show ?thesis by linarith
  qed
  define d where "d = (y - v) * X_PI"
  have d0: "0 < d" using vy X_PI_bounds by (simp add: d_def)
  have "d \<le> 0.000458 * 52.36"
    unfolding d_def using close vy X_PI_bounds by (intro mult_mono) simp_all
  then have d1: "d \<le> 0.1" by simp
  have vX: "v * X_PI = (a - d) + real 664 * pi"
    using yX by (simp add: d_def algebra_simps)
  have s2: "sin (v * X_PI) = sin (a - d)"
    unfolding vX by (subst sin_cos_shift(1)) simp
  have "sin (a - d) < sin a"
    using a d0 d1 pi_lo by (intro sin_monotone_2pi) simp_all
  then have less: "sin (v * X_PI) < sin (y * X_PI)" using s1 s2 by simp
  have z'r: "z' < r" using less by (simp add: z'_def z_def)
  have z'0: "0 < z'"
  proof -
    have "- 1 \<le> sin (v * X_PI)" by simp
    moreover have "z' = z + (1 / 50000) * sin (v * X_PI)" by (simp add: z'_def)
    moreover have "\<bar>z - r\<bar> \<le> 1" using q(7) by simp
    ultimately show ?thesis using q(5) by linarith
  qed
  have sq: "z' * z' < r * r" using z'r z'0 by (intro mult_strict_mono) simp_all
  have "gcj02tobd09 u v \<noteq> (lng, lat)"
  proof
    assume eq: "gcj02tobd09 u v = (lng, lat)"
    then have "z' * cos t' = r * cos p" "z' * sin t' = r * sin p"
      using q(2) q(3) q(4) by (simp_all add: z'_def t'_def)
    then have "(z' * cos t') * (z' * cos t') + (z' * sin t') * (z' * sin t')
             = (r * cos p) * (r * cos p) + (r * sin p) * (r * sin p)"
      by simp
    moreover have "(w * cos k) * (w * cos k) + (w * sin k) * (w * sin k) = w * w" for w k :: real
    proof -
      have "(w * cos k) * (w * cos k) + (w * sin k) * (w * sin k)
              = w * w * (cos k * cos k + sin k * sin k)"
        by (simp only: algebra_simps)
      also have "\<dots> = w * w"
        using sin_cos_squared_add2 [of k] by (simp add: power2_eq_square)
      finally show ?thesis .
    qed
    ultimately have "z' * z' = r * r" by simp
    then show False using sq by simp
  qed
  then show ?thesis using inside q(1) by (simp add: lng_def lat_def)
qed

end
